theory Spec2Isabelle
  imports Main "HOL-Library.List_Lexorder" "HOL-Library.Word" "HOL-Library.AList"
begin

section \<open>Signed update manifests: canonical bytes, path normalisation, archive validation\<close>

text \<open>
  A shallow embedding of the Python tooling in \<^verbatim>\<open>src/pythonsecret\<close>:
  \<^verbatim>\<open>validate_payload.py\<close> (the validator), \<^verbatim>\<open>create_manifest.py\<close> and
  \<^verbatim>\<open>build_manifest.py\<close> (the two builders).
\<close>

subsection \<open>Python values\<close>

text \<open>
  A Python \<^verbatim>\<open>str\<close> is a sequence of Unicode code points (0 to 0x10FFFF, lone surrogates
  included); a \<^verbatim>\<open>bytes\<close> object is a sequence of octets. A \<^verbatim>\<open>dict\<close> is an association
  list in insertion order whose keys are pairwise different.
\<close>

type_synonym ustr = "nat list"
type_synonym byte = "8 word"
type_synonym 'v pydict = "(ustr \<times> 'v) list"

definition ascii :: "string \<Rightarrow> ustr" where
  \<comment> \<open>the code points of an ASCII literal of the source\<close>
  "ascii s = map of_char s"

definition dict_set :: "'v pydict \<Rightarrow> ustr \<Rightarrow> 'v \<Rightarrow> 'v pydict" where
  \<comment> \<open>\<^verbatim>\<open>d[k] = v\<close>: a present key keeps its position, a new key goes last\<close>
  "dict_set d k v = AList.update k v d"

definition dict_has :: "'v pydict \<Rightarrow> ustr \<Rightarrow> bool" where
  \<comment> \<open>\<^verbatim>\<open>k in d\<close>\<close>
  "dict_has d k = (map_of d k \<noteq> None)"

text \<open>
  Every failure of the scripts is a Python exception. All the checks of the validator raise
  \<^verbatim>\<open>ValueError\<close> and differ only in the message, which \<open>reason\<close> records; the lists are
  the paths the message names.
\<close>

datatype reason =
    BadVersion            \<comment> \<open>"Manifest hat kein gueltiges Versionsfeld."\<close>
  | BadFileList           \<comment> \<open>"Manifest enthaelt keine gueltige Dateiliste."\<close>
  | NoSignature           \<comment> \<open>"Manifest enthaelt keine Signatur."\<close>
  | BadBase64             \<comment> \<open>"Signatur ist kein gueltiges Base64: ..."\<close>
  | NonStringEntry        \<comment> \<open>"Dateiliste muss String-Schluessel und -Werte enthalten."\<close>
  | DotDot                \<comment> \<open>"Manifest enthaelt unzulaessigen Pfadanteil '..'."\<close>
  | DuplicateZip ustr     \<comment> \<open>"Doppelte Datei im ZIP: ..."\<close>
  | SignatureFailed       \<comment> \<open>"Signaturpruefung fehlgeschlagen."\<close>
  | MissingFiles "ustr list"   \<comment> \<open>"Dateien fehlen im ZIP: ..."\<close>
  | HashMismatch "ustr list"   \<comment> \<open>"Hashes stimmen nicht: ..."\<close>
  | ExtraFiles "ustr list"     \<comment> \<open>"ZIP enthaelt nicht im Manifest gelistete Dateien: ..."\<close>

datatype error =
    ValueError reason
  | TypeError
  | UnicodeEncodeError
  | InvalidSignature      \<comment> \<open>\<^verbatim>\<open>cryptography.exceptions.InvalidSignature\<close>\<close>

subsection \<open>String primitives of Python\<close>

definition replace_char :: "nat \<Rightarrow> nat \<Rightarrow> ustr \<Rightarrow> ustr" where
  \<comment> \<open>\<^verbatim>\<open>s.replace(old, new)\<close> for one-character \<^verbatim>\<open>old\<close> and \<^verbatim>\<open>new\<close>\<close>
  "replace_char old new s = map (\<lambda>c. if c = old then new else c) s"

fun split_on :: "nat \<Rightarrow> ustr \<Rightarrow> ustr list" where
  \<comment> \<open>\<^verbatim>\<open>s.split(sep)\<close> for a one-character separator: always at least one segment\<close>
  "split_on sep [] = [[]]"
| "split_on sep (c # cs) =
     (if c = sep then [] # split_on sep cs
      else (case split_on sep cs of [] \<Rightarrow> [[c]] | p # ps \<Rightarrow> (c # p) # ps))"

fun join :: "ustr \<Rightarrow> ustr list \<Rightarrow> ustr" where
  \<comment> \<open>\<^verbatim>\<open>sep.join(parts)\<close>\<close>
  "join sep [] = []"
| "join sep [p] = p"
| "join sep (p # q # ps) = p @ sep @ join sep (q # ps)"

subsection \<open>The path normaliser (\<^verbatim>\<open>validate_payload.normalize_relative_path\<close>)\<close>

fun normalize_parts :: "ustr list \<Rightarrow> ustr list \<Rightarrow> error + ustr list" where
  \<comment> \<open>the \<^verbatim>\<open>for part in posix.split("/")\<close> loop; the second argument is \<^verbatim>\<open>parts\<close>\<close>
  "normalize_parts [] parts = Inr parts"
| "normalize_parts (part # rest) parts =
     (if part = [] \<or> part = ascii ''.'' then normalize_parts rest parts
      else if part = ascii ''..'' then Inl (ValueError DotDot)
      else normalize_parts rest (parts @ [part]))"

definition normalize_relative_path :: "ustr \<Rightarrow> error + ustr" where
  "normalize_relative_path path =
     (let posix = replace_char 92 47 path in
      case normalize_parts (split_on 47 posix) [] of
        Inl e \<Rightarrow> Inl e
      | Inr parts \<Rightarrow> Inr (join (ascii ''/'') parts))"

definition kept_segment :: "ustr \<Rightarrow> bool" where
  \<comment> \<open>a segment that is neither empty nor \<^verbatim>\<open>.\<close>\<close>
  "kept_segment s = (s \<noteq> [] \<and> s \<noteq> ascii ''.'')"

definition segments :: "ustr \<Rightarrow> ustr list" where
  \<comment> \<open>the segments of a path after backslashes have become slashes, without the dropped ones\<close>
  "segments path = filter kept_segment (split_on 47 (replace_char 92 47 path))"

subsection \<open>The canonical serialiser (\<^verbatim>\<open>canonical_json\<close>, the same in all three scripts)\<close>

text \<open>
  \<^verbatim>\<open>json.dumps(obj, sort_keys=True, separators=(",", ":"), ensure_ascii=False).encode("utf-8")\<close>.
  The scripts only ever serialise \<^verbatim>\<open>{"version": version, "files": files}\<close>, so the objects
  are strings and dictionaries from strings to objects.
\<close>

datatype pyobj = Str ustr | Dict "pyobj pydict"

definition hexdigit :: "nat \<Rightarrow> nat" where
  \<comment> \<open>the lower-case hexadecimal digit of a value below 16\<close>
  "hexdigit n = (if n < 10 then 48 + n else 87 + n)"

definition escape_char :: "nat \<Rightarrow> ustr" where
  \<comment> \<open>\<^verbatim>\<open>ESCAPE_DCT\<close> of \<^verbatim>\<open>json.encoder\<close>: what \<^verbatim>\<open>ESCAPE\<close> matches is replaced, the rest is kept\<close>
  "escape_char c =
     (if c = 92 then [92, 92]
      else if c = 34 then [92, 34]
      else if c = 8 then [92, 98]
      else if c = 12 then [92, 102]
      else if c = 10 then [92, 110]
      else if c = 13 then [92, 114]
      else if c = 9 then [92, 116]
      else if c < 32 then [92, 117, 48, 48, hexdigit (c div 16), hexdigit (c mod 16)]
      else [c])"

definition encode_basestring :: "ustr \<Rightarrow> ustr" where
  \<comment> \<open>the string encoder chosen by \<^verbatim>\<open>ensure_ascii=False\<close>\<close>
  "encode_basestring s = [34] @ concat (map escape_char s) @ [34]"

fun json_dumps :: "ustr \<times> ustr \<Rightarrow> pyobj \<Rightarrow> ustr" where
  \<comment> \<open>\<^verbatim>\<open>json.dumps\<close> with \<^verbatim>\<open>sort_keys=True\<close>, \<^verbatim>\<open>ensure_ascii=False\<close> and
      \<^verbatim>\<open>separators = (item_separator, key_separator)\<close>\<close>
  "json_dumps seps (Str s) = encode_basestring s"
| "json_dumps seps (Dict items) =
     ascii ''{''
     @ join (fst seps)
         (map (\<lambda>(k, v). encode_basestring k @ snd seps @ json_dumps seps v)
              (sort_key fst items))
     @ ascii ''}''"

definition surrogate :: "nat \<Rightarrow> bool" where
  "surrogate c = (0xD800 \<le> c \<and> c \<le> 0xDFFF)"

definition utf8_units :: "nat \<Rightarrow> nat list" where
  \<comment> \<open>UTF-8 of one code point, as numbers below 256; code points end at 0x10FFFF, so the
      lead byte of a four-byte sequence has three payload bits\<close>
  "utf8_units c =
     (if c < 0x80 then [c]
      else if c < 0x800 then [0xC0 + c div 64, 0x80 + c mod 64]
      else if c < 0x10000 then [0xE0 + c div 4096, 0x80 + c div 64 mod 64, 0x80 + c mod 64]
      else [0xF0 + c div 262144 mod 8, 0x80 + c div 4096 mod 64,
            0x80 + c div 64 mod 64, 0x80 + c mod 64])"

definition utf8_char :: "nat \<Rightarrow> byte list" where
  "utf8_char c = map of_nat (utf8_units c)"

definition str_encode_utf8 :: "ustr \<Rightarrow> error + byte list" where
  \<comment> \<open>\<^verbatim>\<open>s.encode("utf-8")\<close>: the strict codec refuses lone surrogates\<close>
  "str_encode_utf8 s =
     (if list_ex surrogate s then Inl UnicodeEncodeError else Inr (concat (map utf8_char s)))"

definition canonical_json :: "pyobj \<Rightarrow> error + byte list" where
  "canonical_json obj = str_encode_utf8 (json_dumps (ascii '','', ascii '':'') obj)"

definition files_obj :: "ustr pydict \<Rightarrow> pyobj" where
  \<comment> \<open>a \<^verbatim>\<open>Dict[str, str]\<close> as an object\<close>
  "files_obj files = Dict (map (\<lambda>(k, v). (k, Str v)) files)"

definition unsigned_manifest :: "ustr \<Rightarrow> ustr pydict \<Rightarrow> pyobj" where
  \<comment> \<open>\<^verbatim>\<open>{"version": version, "files": files}\<close>\<close>
  "unsigned_manifest version files =
     Dict [(ascii ''version'', Str version), (ascii ''files'', files_obj files)]"

definition entry_text :: "ustr \<times> ustr \<Rightarrow> ustr" where
  \<comment> \<open>one \<^verbatim>\<open>files\<close> entry: key token, colon, digest token\<close>
  "entry_text e = encode_basestring (fst e) @ ascii '':'' @ encode_basestring (snd e)"

definition manifest_text :: "ustr \<Rightarrow> ustr pydict \<Rightarrow> ustr" where
  \<comment> \<open>the canonical text of a manifest whose \<^verbatim>\<open>files\<close> entries are listed in the given order:
      no character stands between the tokens but one comma or one colon\<close>
  "manifest_text version entries =
     ascii ''{\"files\":{'' @ join (ascii '','') (map entry_text entries)
     @ ascii ''},\"version\":'' @ encode_basestring version @ ascii ''}''"

definition encodable :: "ustr \<Rightarrow> bool" where
  \<comment> \<open>no lone surrogate code point\<close>
  "encodable s = (\<not> list_ex surrogate s)"

definition manifest_encodable :: "ustr \<Rightarrow> ustr pydict \<Rightarrow> bool" where
  "manifest_encodable version files =
     (encodable version \<and> list_all (\<lambda>e. encodable (fst e) \<and> encodable (snd e)) files)"

definition spaces :: "ustr \<Rightarrow> nat" where
  \<comment> \<open>how many U+0020 a string holds\<close>
  "spaces s = count_list s 32"

subsection \<open>Library functions the scripts call\<close>

text \<open>
  The cryptographic and Unicode primitives are Python's, not the repository's, and every
  function below takes them as a parameter: strict base64 decoding (\<open>None\<close> when
  \<^verbatim>\<open>base64.b64decode(s, validate=True)\<close> raises), the check
  \<^verbatim>\<open>public_key.verify(signature, payload, PKCS1v15(), SHA256())\<close> of the loaded key (true
  when it returns, false when it raises \<^verbatim>\<open>InvalidSignature\<close>), the SHA-256 digest and
  \<^verbatim>\<open>str.lower\<close>. Reading the manifest, the key and the archive from disk is outside the
  model: the functions start from the parsed document, the loaded key and the archive's
  entries.
\<close>

record primitives =
  b64decode :: "ustr \<Rightarrow> byte list option"
  rsa_verify :: "byte list \<Rightarrow> byte list \<Rightarrow> bool"
  sha256 :: "byte list \<Rightarrow> byte list"
  str_lower :: "ustr \<Rightarrow> ustr"

definition py_isspace :: "nat \<Rightarrow> bool" where
  \<comment> \<open>the code points \<^verbatim>\<open>str.isspace\<close> accepts, which \<^verbatim>\<open>str.strip()\<close> removes\<close>
  "py_isspace c =
     ((9 \<le> c \<and> c \<le> 13) \<or> (28 \<le> c \<and> c \<le> 32) \<or> c = 0x85 \<or> c = 0xA0 \<or> c = 0x1680
      \<or> (0x2000 \<le> c \<and> c \<le> 0x200A) \<or> c = 0x2028 \<or> c = 0x2029 \<or> c = 0x202F
      \<or> c = 0x205F \<or> c = 0x3000)"

definition str_strip :: "ustr \<Rightarrow> ustr" where
  \<comment> \<open>\<^verbatim>\<open>s.strip()\<close>\<close>
  "str_strip s = rev (dropWhile py_isspace (rev (dropWhile py_isspace s)))"

fun str_contains :: "ustr \<Rightarrow> ustr \<Rightarrow> bool" where
  \<comment> \<open>\<^verbatim>\<open>sub in s\<close> on strings\<close>
  "str_contains sub [] = (sub = [])"
| "str_contains sub (c # cs) = (take (length sub) (c # cs) = sub \<or> str_contains sub cs)"

subsection \<open>The content hasher\<close>

text \<open>
  A \<^verbatim>\<open>hashlib\<close> object is the bytes fed to it so far: \<^verbatim>\<open>update\<close> appends and
  \<^verbatim>\<open>hexdigest\<close> is the lower-case hexadecimal text of the digest of everything fed. An
  open binary file is the bytes not yet read, and \<^verbatim>\<open>read(8192)\<close> takes up to 8192 of them.
\<close>

type_synonym hasher = "byte list"

definition hashlib_sha256 :: hasher where
  "hashlib_sha256 = []"

definition update :: "hasher \<Rightarrow> byte list \<Rightarrow> hasher" where
  "update h chunk = h @ chunk"

definition hex_byte :: "byte \<Rightarrow> ustr" where
  "hex_byte b = [hexdigit (unat b div 16), hexdigit (unat b mod 16)]"

definition hexdigest :: "primitives \<Rightarrow> hasher \<Rightarrow> ustr" where
  "hexdigest L h = concat (map hex_byte (sha256 L h))"

definition build_manifest_sha256_file :: "primitives \<Rightarrow> byte list \<Rightarrow> ustr" where
  \<comment> \<open>\<^verbatim>\<open>build_manifest.sha256_file\<close>: one \<^verbatim>\<open>update\<close> with the whole file\<close>
  "build_manifest_sha256_file L content = hexdigest L (update hashlib_sha256 content)"

function read_loop :: "byte list \<Rightarrow> hasher \<Rightarrow> hasher" where
  \<comment> \<open>\<^verbatim>\<open>while chunk := f.read(8192): hasher.update(chunk)\<close>\<close>
  "read_loop rest hasher =
     (let chunk = take 8192 rest in
      if chunk = [] then hasher else read_loop (drop 8192 rest) (update hasher chunk))"
  by pat_completeness auto
termination
  by (relation "measure (\<lambda>(rest, hasher). length rest)") auto

declare read_loop.simps [simp del]

definition create_manifest_sha256_file :: "primitives \<Rightarrow> byte list \<Rightarrow> ustr" where
  \<comment> \<open>\<^verbatim>\<open>create_manifest.sha256_file\<close>\<close>
  "create_manifest_sha256_file L content = hexdigest L (read_loop content hashlib_sha256)"

function iter_chunks :: "byte list \<Rightarrow> hasher \<Rightarrow> hasher" where
  \<comment> \<open>\<^verbatim>\<open>for chunk in iter(lambda: file_handle.read(8192), b""): digest.update(chunk)\<close>\<close>
  "iter_chunks rest digest =
     (let chunk = take 8192 rest in
      if chunk = [] then digest else iter_chunks (drop 8192 rest) (update digest chunk))"
  by pat_completeness auto
termination
  by (relation "measure (\<lambda>(rest, digest). length rest)") auto

declare iter_chunks.simps [simp del]

definition member_digest :: "primitives \<Rightarrow> byte list \<Rightarrow> ustr" where
  \<comment> \<open>the hashing of one entry in \<^verbatim>\<open>hash_zip_members\<close> (lines 141 to 145)\<close>
  "member_digest L content = hexdigest L (iter_chunks content hashlib_sha256)"

subsection \<open>The manifest document (\<^verbatim>\<open>load_manifest\<close>)\<close>

text \<open>
  What \<^verbatim>\<open>json.loads\<close> returns. The value of a float is never looked at. The keys of an
  object are strings and pairwise different.
\<close>

datatype json =
    JNull | JBool bool | JInt int | JFloat | JStr ustr | JList "json list" | JDict "json pydict"

fun string_entries :: "json pydict \<Rightarrow> ustr pydict \<Rightarrow> error + ustr pydict" where
  \<comment> \<open>the loop over \<^verbatim>\<open>data["files"].items()\<close>; the second argument is \<^verbatim>\<open>files\<close>\<close>
  "string_entries [] files = Inr files"
| "string_entries ((key, val) # rest) files =
     (case val of
        JStr s \<Rightarrow> string_entries rest (dict_set files key s)
      | _ \<Rightarrow> Inl (ValueError NonStringEntry))"

definition load_fields :: "primitives \<Rightarrow> json pydict \<Rightarrow> error + ustr \<times> ustr pydict \<times> byte list" where
  \<comment> \<open>the body of \<^verbatim>\<open>load_manifest\<close> when \<^verbatim>\<open>data\<close> is a dictionary\<close>
  "load_fields L d =
     (case map_of d (ascii ''version'') of
        Some (JStr version) \<Rightarrow>
          if str_strip version = [] then Inl (ValueError BadVersion)
          else (case map_of d (ascii ''files'') of
            Some (JDict fs) \<Rightarrow>
              (case map_of d (ascii ''signature'') of
                 Some (JStr sig_text) \<Rightarrow>
                   (case b64decode L sig_text of
                      None \<Rightarrow> Inl (ValueError BadBase64)
                    | Some signature \<Rightarrow>
                        (case string_entries fs [] of
                           Inl e \<Rightarrow> Inl e
                         | Inr files \<Rightarrow> Inr (version, files, signature)))
               | _ \<Rightarrow> Inl (ValueError NoSignature))
          | _ \<Rightarrow> Inl (ValueError BadFileList))
      | _ \<Rightarrow> Inl (ValueError BadVersion))"

fun load_manifest :: "primitives \<Rightarrow> json \<Rightarrow> error + ustr \<times> ustr pydict \<times> byte list" where
  \<comment> \<open>on a document that is no object, \<^verbatim>\<open>"version" not in data\<close> or \<^verbatim>\<open>data["version"]\<close>
      raises \<^verbatim>\<open>TypeError\<close>, unless the first test already rejects the document\<close>
  "load_manifest L (JDict d) = load_fields L d"
| "load_manifest L (JList xs) =
     (if JStr (ascii ''version'') \<notin> set xs then Inl (ValueError BadVersion) else Inl TypeError)"
| "load_manifest L (JStr s) =
     (if \<not> str_contains (ascii ''version'') s then Inl (ValueError BadVersion) else Inl TypeError)"
| "load_manifest L _ = Inl TypeError"

subsection \<open>Signature check (\<^verbatim>\<open>verify_signature\<close>) and the builder's signing input\<close>

definition signature_payload :: "ustr \<Rightarrow> ustr pydict \<Rightarrow> error + byte list" where
  \<comment> \<open>\<^verbatim>\<open>payload\<close> in \<^verbatim>\<open>verify_signature\<close> (lines 114 and 115)\<close>
  "signature_payload version files = canonical_json (unsigned_manifest version files)"

definition verify_signature :: "primitives \<Rightarrow> ustr \<Rightarrow> ustr pydict \<Rightarrow> byte list \<Rightarrow> error + unit" where
  "verify_signature L version files signature =
     (case signature_payload version files of
        Inl e \<Rightarrow> Inl e
      | Inr payload \<Rightarrow> if rsa_verify L signature payload then Inr () else Inl InvalidSignature)"

definition manifest_bytes :: "ustr \<Rightarrow> ustr pydict \<Rightarrow> error + byte list" where
  \<comment> \<open>\<^verbatim>\<open>manifest_bytes\<close> in \<^verbatim>\<open>create_manifest.main\<close> and \<^verbatim>\<open>build_manifest.main\<close>: what the
      builders sign\<close>
  "manifest_bytes version files = canonical_json (unsigned_manifest version files)"

subsection \<open>Hashing the archive (\<^verbatim>\<open>hash_zip_members\<close>)\<close>

record zipinfo =
  filename :: ustr
  is_dir :: bool
  content :: "byte list"

fun hash_zip_loop :: "primitives \<Rightarrow> zipinfo list \<Rightarrow> ustr pydict \<Rightarrow> error + ustr pydict" where
  \<comment> \<open>the loop over \<^verbatim>\<open>archive.infolist()\<close>; the last argument is \<^verbatim>\<open>hashes\<close>\<close>
  "hash_zip_loop L [] hashes = Inr hashes"
| "hash_zip_loop L (info # rest) hashes =
     (if is_dir info then hash_zip_loop L rest hashes
      else (case normalize_relative_path (filename info) of
              Inl e \<Rightarrow> Inl e
            | Inr normalized \<Rightarrow>
                if dict_has hashes normalized then Inl (ValueError (DuplicateZip normalized))
                else hash_zip_loop L rest
                       (dict_set hashes normalized (member_digest L (content info)))))"

definition hash_zip_members :: "primitives \<Rightarrow> zipinfo list \<Rightarrow> error + ustr pydict" where
  "hash_zip_members L infolist = hash_zip_loop L infolist []"

subsection \<open>The validator (\<^verbatim>\<open>validate_payload\<close>)\<close>

fun normalize_manifest_loop :: "primitives \<Rightarrow> ustr pydict \<Rightarrow> ustr pydict \<Rightarrow> error + ustr pydict" where
  \<comment> \<open>lines 159 to 162; the last argument is \<^verbatim>\<open>normalized_manifest_files\<close>\<close>
  "normalize_manifest_loop L [] acc = Inr acc"
| "normalize_manifest_loop L ((rel_path, expected_hash) # rest) acc =
     (case normalize_relative_path rel_path of
        Inl e \<Rightarrow> Inl e
      | Inr normalized \<Rightarrow>
          normalize_manifest_loop L rest (dict_set acc normalized (str_lower L expected_hash)))"

definition normalize_manifest_files :: "primitives \<Rightarrow> ustr pydict \<Rightarrow> error + ustr pydict" where
  "normalize_manifest_files L files = normalize_manifest_loop L files []"

fun compare_loop ::
  "primitives \<Rightarrow> ustr pydict \<Rightarrow> ustr pydict \<Rightarrow> ustr list \<Rightarrow> ustr list \<Rightarrow> ustr list \<times> ustr list" where
  \<comment> \<open>lines 164 to 172; the last two arguments are \<^verbatim>\<open>missing\<close> and \<^verbatim>\<open>hash_mismatches\<close>\<close>
  "compare_loop L archive_hashes [] missing hash_mismatches = (missing, hash_mismatches)"
| "compare_loop L archive_hashes ((rel_path, expected_hash) # rest) missing hash_mismatches =
     (case map_of archive_hashes rel_path of
        None \<Rightarrow> compare_loop L archive_hashes rest (missing @ [rel_path]) hash_mismatches
      | Some h \<Rightarrow>
          if str_lower L h \<noteq> expected_hash
          then compare_loop L archive_hashes rest missing (hash_mismatches @ [rel_path])
          else compare_loop L archive_hashes rest missing hash_mismatches)"

definition extra_files :: "ustr pydict \<Rightarrow> ustr pydict \<Rightarrow> ustr list" where
  \<comment> \<open>\<^verbatim>\<open>sorted(set(archive_hashes) - set(normalized_manifest_files))\<close>\<close>
  "extra_files archive_hashes normalized_manifest_files =
     sort (remdups (filter (\<lambda>p. \<not> dict_has normalized_manifest_files p)
                           (map fst archive_hashes)))"

datatype printed =
    Warning "ustr list"   \<comment> \<open>"Warnung: Zusaetzliche Dateien im ZIP (nicht im Manifest): ..."\<close>
  | Valid ustr            \<comment> \<open>"Manifest und ZIP sind gueltig. Version: ..."\<close>

definition validate_loaded ::
  "primitives \<Rightarrow> ustr \<times> ustr pydict \<times> byte list \<Rightarrow> zipinfo list \<Rightarrow> bool \<Rightarrow> error + printed list" where
  \<comment> \<open>\<^verbatim>\<open>validate_payload\<close> from line 152 on; the result lists what was printed\<close>
  "validate_loaded L manifest infolist fail_on_extra =
     (case manifest of (version, files, signature) \<Rightarrow>
      case verify_signature L version files signature of
        Inl InvalidSignature \<Rightarrow> Inl (ValueError SignatureFailed)
      | Inl e \<Rightarrow> Inl e
      | Inr _ \<Rightarrow>
     (case hash_zip_members L infolist of
        Inl e \<Rightarrow> Inl e
      | Inr archive_hashes \<Rightarrow>
     (case normalize_manifest_files L files of
        Inl e \<Rightarrow> Inl e
      | Inr normalized_manifest_files \<Rightarrow>
     (case compare_loop L archive_hashes normalized_manifest_files [] [] of
        (missing, hash_mismatches) \<Rightarrow>
          let extra = extra_files archive_hashes normalized_manifest_files in
          if missing \<noteq> [] then Inl (ValueError (MissingFiles missing))
          else if hash_mismatches \<noteq> [] then Inl (ValueError (HashMismatch hash_mismatches))
          else if fail_on_extra \<and> extra \<noteq> [] then Inl (ValueError (ExtraFiles extra))
          else Inr ((if extra \<noteq> [] then [Warning extra] else []) @ [Valid version])))))"

definition validate_payload :: "primitives \<Rightarrow> json \<Rightarrow> zipinfo list \<Rightarrow> bool \<Rightarrow> error + printed list" where
  "validate_payload L data infolist fail_on_extra =
     (case load_manifest L data of
        Inl e \<Rightarrow> Inl e
      | Inr manifest \<Rightarrow> validate_loaded L manifest infolist fail_on_extra)"

subsection \<open>The builder's file enumeration (\<^verbatim>\<open>create_manifest.collect_hashes\<close>)\<close>

text \<open>
  What \<^verbatim>\<open>payload_dir.rglob("*")\<close> yields: each path below the payload directory, as its
  components relative to the directory, with what is found there. \<^verbatim>\<open>Path.is_file()\<close> and
  \<^verbatim>\<open>open\<close> follow symbolic links; a link leads to another node, or nowhere when it dangles.
\<close>

datatype node = RegularFile "byte list" | Directory | SymlinkTo "node option" | Special

fun resolve :: "node \<Rightarrow> node option" where
  \<comment> \<open>the node \<^verbatim>\<open>stat()\<close> reports on\<close>
  "resolve (SymlinkTo None) = None"
| "resolve (SymlinkTo (Some n)) = resolve n"
| "resolve n = Some n"

definition is_file :: "node \<Rightarrow> bool" where
  "is_file n = (case resolve n of Some (RegularFile _) \<Rightarrow> True | _ \<Rightarrow> False)"

definition read_bytes :: "node \<Rightarrow> byte list" where
  \<comment> \<open>the bytes \<^verbatim>\<open>path.open("rb")\<close> reads, for a path on which \<open>is_file\<close> holds\<close>
  "read_bytes n = (case resolve n of Some (RegularFile bs) \<Rightarrow> bs | _ \<Rightarrow> [])"

definition as_posix :: "ustr list \<Rightarrow> ustr" where
  \<comment> \<open>\<^verbatim>\<open>file_path.relative_to(payload_dir).as_posix()\<close>\<close>
  "as_posix parts = join (ascii ''/'') parts"

fun collect_loop :: "primitives \<Rightarrow> (ustr list \<times> node) list \<Rightarrow> ustr pydict \<Rightarrow> ustr pydict" where
  \<comment> \<open>the loop over \<^verbatim>\<open>rglob("*")\<close>; the last argument is \<^verbatim>\<open>files\<close>\<close>
  "collect_loop L [] files = files"
| "collect_loop L ((parts, n) # rest) files =
     (if is_file n
      then collect_loop L rest
             (dict_set files (as_posix parts) (create_manifest_sha256_file L (read_bytes n)))
      else collect_loop L rest files)"

definition collect_hashes :: "primitives \<Rightarrow> (ustr list \<times> node) list \<Rightarrow> ustr pydict" where
  "collect_hashes L tree = collect_loop L tree []"

subsection \<open>Notions used in the statements\<close>

text \<open>
  A stand-in for the library, used only to run the definitions on concrete inputs: the
  theorems hold for every choice of the primitives.
\<close>

definition sample :: primitives where
  "sample = \<lparr> b64decode = (\<lambda>s. if list_all (\<lambda>c. c < 128) s then Some (map of_nat s) else None),
              rsa_verify = (\<lambda>signature payload. signature = take 2 payload),
              sha256 = (\<lambda>bs. [of_nat (length bs), of_nat (sum_list (map unat bs))]),
              str_lower = map (\<lambda>c. if 65 \<le> c \<and> c \<le> 90 then c + 32 else c) \<rparr>"

definition lower_hex :: "ustr \<Rightarrow> bool" where
  \<comment> \<open>only the characters 0 to 9 and a to f\<close>
  "lower_hex s = list_all (\<lambda>c. (48 \<le> c \<and> c \<le> 57) \<or> (97 \<le> c \<and> c \<le> 102)) s"

definition is_str :: "json \<Rightarrow> bool" where
  "is_str v = (case v of JStr _ \<Rightarrow> True | _ \<Rightarrow> False)"

definition the_str :: "json \<Rightarrow> ustr" where
  "the_str v = (case v of JStr s \<Rightarrow> s | _ \<Rightarrow> [])"

definition version_invalid :: "json pydict \<Rightarrow> bool" where
  \<comment> \<open>missing, not a string, or nothing left after stripping white space\<close>
  "version_invalid d =
     (case map_of d (ascii ''version'') of Some (JStr v) \<Rightarrow> list_all py_isspace v | _ \<Rightarrow> True)"

definition claimed_version_invalid :: "json pydict \<Rightarrow> bool" where
  \<comment> \<open>the condition as the specification words it: missing, not a string, or empty\<close>
  "claimed_version_invalid d =
     (case map_of d (ascii ''version'') of Some (JStr v) \<Rightarrow> v = [] | _ \<Rightarrow> True)"

definition files_invalid :: "json pydict \<Rightarrow> bool" where
  \<comment> \<open>missing, not a dictionary, or with a value that is no string\<close>
  "files_invalid d =
     (case map_of d (ascii ''files'') of
        Some (JDict fs) \<Rightarrow> \<not> list_all (\<lambda>e. is_str (snd e)) fs
      | _ \<Rightarrow> True)"

definition signature_invalid :: "primitives \<Rightarrow> json pydict \<Rightarrow> bool" where
  \<comment> \<open>missing, not a string, or not valid base64\<close>
  "signature_invalid L d =
     (case map_of d (ascii ''signature'') of
        Some (JStr s) \<Rightarrow> b64decode L s = None
      | _ \<Rightarrow> True)"

definition manifest_errors :: "error set" where
  \<comment> \<open>the structural errors and the encoding error of \<open>load_manifest\<close>\<close>
  "manifest_errors = {ValueError BadVersion, ValueError BadFileList, ValueError NoSignature,
                      ValueError BadBase64, ValueError NonStringEntry}"

definition sample_doc :: "json pydict" where
  "sample_doc = [(ascii ''version'', JStr (ascii ''1.0'')),
                 (ascii ''files'', JDict [(ascii ''a/b.txt'', JStr (ascii ''03d0''))]),
                 (ascii ''signature'', JStr (ascii ''{\"''))]"

definition members :: "zipinfo list \<Rightarrow> zipinfo list" where
  \<comment> \<open>the entries that are no directories\<close>
  "members infolist = filter (\<lambda>i. \<not> is_dir i) infolist"

definition normal_form :: "ustr \<Rightarrow> ustr" where
  \<comment> \<open>what \<open>normalize_relative_path\<close> returns when it returns\<close>
  "normal_form path = join (ascii ''/'') (segments path)"

definition traversal :: "ustr \<Rightarrow> bool" where
  \<comment> \<open>a \<^verbatim>\<open>..\<close> segment is left\<close>
  "traversal path = (ascii ''..'' \<in> set (segments path))"

definition normal_names :: "zipinfo list \<Rightarrow> ustr list" where
  \<comment> \<open>the normalised names of entries, in their order\<close>
  "normal_names entries = map (\<lambda>i. normal_form (filename i)) entries"

definition unobjectionable :: "zipinfo list \<Rightarrow> bool" where
  \<comment> \<open>no name has a \<^verbatim>\<open>..\<close> segment and no two names normalise to the same path\<close>
  "unobjectionable entries =
     (list_all (\<lambda>i. \<not> traversal (filename i)) entries \<and> distinct (normal_names entries))"

definition hashed_member :: "primitives \<Rightarrow> zipinfo \<Rightarrow> ustr \<times> ustr" where
  \<comment> \<open>the archive map's entry for an archive entry: normalised name and digest of its bytes\<close>
  "hashed_member L i = (normal_form (filename i), hexdigest L (content i))"

definition entry_named :: "ustr \<Rightarrow> zipinfo" where
  \<comment> \<open>an empty file of the given name\<close>
  "entry_named name = \<lparr>filename = name, is_dir = False, content = []\<rparr>"

definition sample_zip :: "zipinfo list" where
  "sample_zip = [\<lparr>filename = ascii ''a/'', is_dir = True, content = []\<rparr>,
                 \<lparr>filename = ascii ''a/./b.txt'', is_dir = False, content = [0x68, 0x69, 0xFF]\<rparr>]"

definition missing_paths :: "ustr pydict \<Rightarrow> ustr pydict \<Rightarrow> ustr list" where
  \<comment> \<open>the manifest paths absent from the archive map, in manifest order\<close>
  "missing_paths archive manifest = filter (\<lambda>p. \<not> dict_has archive p) (map fst manifest)"

definition differs :: "primitives \<Rightarrow> ustr pydict \<Rightarrow> ustr \<times> ustr \<Rightarrow> bool" where
  \<comment> \<open>the path is in the archive map, with a digest other than the expected one\<close>
  "differs L archive e =
     (case map_of archive (fst e) of None \<Rightarrow> False | Some h \<Rightarrow> str_lower L h \<noteq> snd e)"

definition mismatched_paths :: "primitives \<Rightarrow> ustr pydict \<Rightarrow> ustr pydict \<Rightarrow> ustr list" where
  "mismatched_paths L archive manifest = map fst (filter (differs L archive) manifest)"

definition reconciled ::
  "primitives \<Rightarrow> ustr \<Rightarrow> ustr pydict \<Rightarrow> ustr pydict \<Rightarrow> bool \<Rightarrow> error + printed list" where
  \<comment> \<open>the verdict on an archive map and a normalised manifest map\<close>
  "reconciled L version archive manifest strict =
     (if missing_paths archive manifest \<noteq> []
        then Inl (ValueError (MissingFiles (missing_paths archive manifest)))
      else if mismatched_paths L archive manifest \<noteq> []
        then Inl (ValueError (HashMismatch (mismatched_paths L archive manifest)))
      else if strict \<and> extra_files archive manifest \<noteq> []
        then Inl (ValueError (ExtraFiles (extra_files archive manifest)))
      else if extra_files archive manifest \<noteq> []
        then Inr [Warning (extra_files archive manifest), Valid version]
      else Inr [Valid version])"

definition last_digest :: "primitives \<Rightarrow> ustr pydict \<Rightarrow> ustr \<Rightarrow> ustr option" where
  \<comment> \<open>the lower-cased digest of the last manifest entry whose path normalises to \<open>p\<close>\<close>
  "last_digest L files p =
     (case filter (\<lambda>e. normal_form (fst e) = p) files of
        [] \<Rightarrow> None
      | e # es \<Rightarrow> Some (str_lower L (snd (last (e # es)))))"

definition extra_entry :: zipinfo where
  "extra_entry = \<lparr>filename = ascii ''notes.txt'', is_dir = False, content = []\<rparr>"

definition twice_listed :: "ustr \<Rightarrow> ustr \<Rightarrow> ustr pydict" where
  \<comment> \<open>a \<^verbatim>\<open>files\<close> map whose two keys \<^verbatim>\<open>a/b\<close> and \<^verbatim>\<open>a//b\<close> normalise to the same path\<close>
  "twice_listed first second = [(ascii ''a/b'', first), (ascii ''a//b'', second)]"

definition sample_doc_twice :: "json pydict" where
  "sample_doc_twice = [(ascii ''version'', JStr (ascii ''1.0'')),
                       (ascii ''files'', JDict [(ascii ''a/b'', JStr (ascii ''ffff'')),
                                                (ascii ''a//b'', JStr (ascii ''03d0''))]),
                       (ascii ''signature'', JStr (ascii ''{\"''))]"

definition hashed_entry :: "primitives \<Rightarrow> ustr list \<times> node \<Rightarrow> ustr \<times> ustr" where
  \<comment> \<open>the \<^verbatim>\<open>files\<close> entry of a path: its posix form and the digest of the bytes read there\<close>
  "hashed_entry L e = (as_posix (fst e), hexdigest L (read_bytes (snd e)))"

definition sample_tree :: "(ustr list \<times> node) list" where
  "sample_tree =
     [([ascii ''bin''], Directory),
      ([ascii ''bin'', ascii ''app.exe''], RegularFile [0x68, 0x69, 0xFF]),
      ([ascii ''latest''], SymlinkTo (Some (RegularFile [0x68, 0x69, 0xFF]))),
      ([ascii ''lost''], SymlinkTo None),
      ([ascii ''current''], SymlinkTo (Some Directory))]"

section \<open>Properties of the path normaliser\<close>

lemma ascii_simps [simp]:
  "ascii ''/'' = [47]" "ascii ''.'' = [46]" "ascii ''..'' = [46, 46]"
  by (simp_all add: ascii_def)

lemma normalize_parts_filter:
  "normalize_parts ps acc =
     (if ascii ''..'' \<in> set ps then Inl (ValueError DotDot)
      else Inr (acc @ filter kept_segment ps))"
  by (induction ps arbitrary: acc) (auto simp: kept_segment_def)

lemma dotdot_kept: "ascii ''..'' \<in> set (filter kept_segment ps) \<longleftrightarrow> ascii ''..'' \<in> set ps"
  by (auto simp: kept_segment_def)

lemma normalize_relative_path_eq:
  "normalize_relative_path path =
     (if ascii ''..'' \<in> set (segments path) then Inl (ValueError DotDot)
      else Inr (join (ascii ''/'') (segments path)))"
  unfolding normalize_relative_path_def segments_def Let_def dotdot_kept normalize_parts_filter
  by simp

lemma split_on_not_Nil [simp]: "split_on sep s \<noteq> []"
  by (induction s) (auto split: list.splits)

lemma split_on_no_sep: "p \<in> set (split_on sep s) \<Longrightarrow> sep \<notin> set p"
  by (induction s arbitrary: p) (auto split: list.splits if_splits)

lemma split_on_chars: "p \<in> set (split_on sep s) \<Longrightarrow> set p \<subseteq> set s"
proof (induction s arbitrary: p)
  case Nil then show ?case by simp
next
  case (Cons c cs)
  obtain q qs where sp: "split_on sep cs = q # qs"
    by (cases "split_on sep cs") auto
  have q: "set q \<subseteq> set cs" and qs: "\<And>r. r \<in> set qs \<Longrightarrow> set r \<subseteq> set cs"
    using Cons.IH sp by auto
  show ?case
  proof (cases "c = sep")
    case True
    with Cons.prems sp q qs show ?thesis by auto
  next
    case False
    with Cons.prems sp have "p = c # q \<or> p \<in> set qs" by auto
    with q qs show ?thesis by auto
  qed
qed

lemma split_on_free: "sep \<notin> set p \<Longrightarrow> split_on sep p = [p]"
  by (induction p) auto

lemma split_on_append_sep:
  "sep \<notin> set p \<Longrightarrow> split_on sep (p @ sep # s) = p # split_on sep s"
  by (induction p) auto

lemma split_on_join:
  "ps \<noteq> [] \<Longrightarrow> \<forall>p\<in>set ps. sep \<notin> set p \<Longrightarrow> split_on sep (join [sep] ps) = ps"
proof (induction ps)
  case Nil then show ?case by simp
next
  case (Cons p ps)
  show ?case
  proof (cases ps)
    case Nil
    with Cons.prems show ?thesis by (simp add: split_on_free)
  next
    case (Cons q qs)
    with Cons.prems Cons.IH have "split_on sep (join [sep] ps) = ps" by simp
    with Cons Cons.prems show ?thesis by (simp add: split_on_append_sep)
  qed
qed

lemma set_join: "set (join sep ps) \<subseteq> set sep \<union> (\<Union>p\<in>set ps. set p)"
  by (induction sep ps rule: join.induct) auto

lemma replace_char_absent: "old \<notin> set s \<Longrightarrow> replace_char old new s = s"
  by (induction s) (auto simp: replace_char_def)

lemma replace_char_gone: "old \<noteq> new \<Longrightarrow> old \<notin> set (replace_char old new s)"
  by (auto simp: replace_char_def)

lemma segments_props:
  assumes "s \<in> set (segments path)"
  shows "s \<noteq> []" "s \<noteq> ascii ''.''" "47 \<notin> set s" "92 \<notin> set s"
proof -
  from assms have k: "kept_segment s" and m: "s \<in> set (split_on 47 (replace_char 92 47 path))"
    by (auto simp: segments_def)
  from k show "s \<noteq> []" "s \<noteq> ascii ''.''" by (auto simp: kept_segment_def)
  from m show "47 \<notin> set s" by (rule split_on_no_sep)
  from split_on_chars[OF m] replace_char_gone[of 92 47 path] show "92 \<notin> set s" by auto
qed

lemma join_segments_no_backslash: "92 \<notin> set (join (ascii ''/'') (segments path))"
  using set_join[of "ascii ''/''" "segments path"] segments_props(4)[of _ path] by auto

lemma split_on_join_segments:
  "segments path \<noteq> [] \<Longrightarrow> split_on 47 (join (ascii ''/'') (segments path)) = segments path"
  using split_on_join[of "segments path" 47] segments_props(3)[of _ path] by simp

lemma segments_join_segments:
  "segments (join (ascii ''/'') (segments path)) = segments path"
proof (cases "segments path = []")
  case True
  then show ?thesis by (simp add: segments_def replace_char_def kept_segment_def)
next
  case False
  let ?q = "join (ascii ''/'') (segments path)"
  have r: "replace_char 92 47 ?q = ?q"
    by (rule replace_char_absent) (rule join_segments_no_backslash)
  have s: "split_on 47 ?q = segments path"
    using False by (rule split_on_join_segments)
  have "filter kept_segment (segments path) = segments path"
    by (simp add: segments_def)
  with r s show ?thesis unfolding segments_def[of ?q] by simp
qed

text \<open>
  C4: \<open>normalize_relative_path\<close> turns every backslash into a slash, splits on slashes, drops
  the empty segments and the segments \<^verbatim>\<open>.\<close> (this is \<open>segments\<close>), raises the
  path-security \<^verbatim>\<open>ValueError\<close> exactly when one of the remaining segments is \<^verbatim>\<open>..\<close>, and
  otherwise returns the remaining segments joined by slashes. \<^verbatim>\<open>a/./b\<close>, \<^verbatim>\<open>a\b\<close> and
  \<^verbatim>\<open>a//b\<close> give \<^verbatim>\<open>a/b\<close>; \<^verbatim>\<open>../../evil.bin\<close> is rejected.
\<close>

theorem normalize_relative_path_spec:
  "normalize_relative_path path =
     (if ascii ''..'' \<in> set (segments path) then Inl (ValueError DotDot)
      else Inr (join (ascii ''/'') (segments path)))
   \<and> ((\<exists>e. normalize_relative_path path = Inl e) \<longleftrightarrow> ascii ''..'' \<in> set (segments path))
   \<and> normalize_relative_path (ascii ''a/./b'') = Inr (ascii ''a/b'')
   \<and> normalize_relative_path (ascii ''a'' @ [92] @ ascii ''b'') = Inr (ascii ''a/b'')
   \<and> normalize_relative_path (ascii ''a//b'') = Inr (ascii ''a/b'')
   \<and> normalize_relative_path (ascii ''../../evil.bin'') = Inl (ValueError DotDot)"
proof -
  have 1: "normalize_relative_path (ascii ''a/./b'') = Inr (ascii ''a/b'')"
    by (simp add: normalize_relative_path_def ascii_def replace_char_def)
  have 2: "normalize_relative_path (ascii ''a'' @ [92] @ ascii ''b'') = Inr (ascii ''a/b'')"
    by (simp add: normalize_relative_path_def ascii_def replace_char_def)
  have 3: "normalize_relative_path (ascii ''a//b'') = Inr (ascii ''a/b'')"
    by (simp add: normalize_relative_path_def ascii_def replace_char_def)
  have 4: "normalize_relative_path (ascii ''../../evil.bin'') = Inl (ValueError DotDot)"
    by (simp add: normalize_relative_path_def ascii_def replace_char_def)
  show ?thesis
    using 1 2 3 4 by (simp add: normalize_relative_path_eq)
qed

theorem normalize_relative_path_spec_witness:
  "normalize_relative_path (ascii ''dir'' @ [92] @ ascii ''.'' @ [92] @ ascii ''sub//f.txt'')
     = Inr (ascii ''dir/sub/f.txt'')
   \<and> normalize_relative_path (ascii ''dir/sub/../../../f.txt'') = Inl (ValueError DotDot)"
proof -
  have a: "segments (ascii ''dir'' @ [92] @ ascii ''.'' @ [92] @ ascii ''sub//f.txt'')
             = [ascii ''dir'', ascii ''sub'', ascii ''f.txt'']"
    by (simp add: segments_def ascii_def replace_char_def kept_segment_def)
  have b: "ascii ''..'' \<in> set (segments (ascii ''dir/sub/../../../f.txt''))"
    by (simp add: segments_def ascii_def replace_char_def kept_segment_def)
  show ?thesis
    using normalize_relative_path_spec
            [of "ascii ''dir'' @ [92] @ ascii ''.'' @ [92] @ ascii ''sub//f.txt''"]
          normalize_relative_path_spec [of "ascii ''dir/sub/../../../f.txt''"] a b
    by (simp add: ascii_def)
qed

lemma join_segments_empty: "join (ascii ''/'') (segments path) = [] \<longleftrightarrow> segments path = []"
proof
  assume e: "join (ascii ''/'') (segments path) = []"
  show "segments path = []"
  proof (rule ccontr)
    assume n: "segments path \<noteq> []"
    from split_on_join_segments[OF n] e have "segments path = [[]]" by simp
    then have "[] \<in> set (segments path)" by simp
    with segments_props(1)[of "[]" path] show False by simp
  qed
next
  assume "segments path = []" then show "join (ascii ''/'') (segments path) = []" by simp
qed

text \<open>
  C10 (amended): on a path with no \<^verbatim>\<open>..\<close> segment \<open>normalize_relative_path\<close> succeeds, and
  its result is a fixed point of the function: normalising it again returns it unchanged.
  The result holds no backslash, and splitting it on slashes gives no segment \<^verbatim>\<open>.\<close> and,
  unless the result is the empty string, no empty segment. The result is the empty string
  exactly when no segment of the input survives. It is the slash-separated list of its
  segments, none of which is empty, is \<^verbatim>\<open>.\<close> or \<^verbatim>\<open>..\<close> or holds a slash, and splitting a
  result that is not empty gives these segments back.
\<close>

theorem normalize_relative_path_idempotent:
  assumes "ascii ''..'' \<notin> set (split_on 47 (replace_char 92 47 path))"
  shows "\<exists>q parts. normalize_relative_path path = Inr q
           \<and> normalize_relative_path q = Inr q
           \<and> 92 \<notin> set q
           \<and> ascii ''.'' \<notin> set (split_on 47 q)
           \<and> (q = [] \<longleftrightarrow> segments path = [])
           \<and> (q \<noteq> [] \<longrightarrow> [] \<notin> set (split_on 47 q))
           \<and> q = join (ascii ''/'') parts
           \<and> list_all (\<lambda>s. s \<noteq> [] \<and> s \<noteq> ascii ''.'' \<and> s \<noteq> ascii ''..'' \<and> 47 \<notin> set s) parts
           \<and> (q = [] \<or> split_on 47 q = parts)"
proof -
  let ?parts = "segments path"
  let ?q = "join (ascii ''/'') ?parts"
  from assms have nd: "ascii ''..'' \<notin> set ?parts" by (simp add: segments_def)
  then have 1: "normalize_relative_path path = Inr ?q" by (simp add: normalize_relative_path_eq)
  have 2: "normalize_relative_path ?q = Inr ?q"
    using nd segments_join_segments[of path] normalize_relative_path_eq[of ?q] by simp
  have 3: "92 \<notin> set ?q" by (rule join_segments_no_backslash)
  have 4: "list_all (\<lambda>s. s \<noteq> [] \<and> s \<noteq> ascii ''.'' \<and> s \<noteq> ascii ''..'' \<and> 47 \<notin> set s) ?parts"
    unfolding list_all_iff using segments_props(1,2,3)[of _ path] nd by blast
  have 5: "?q = [] \<or> split_on 47 ?q = ?parts"
  proof (cases "?parts = []")
    case True then show ?thesis by simp
  next
    case False
    then have "split_on 47 ?q = ?parts" by (rule split_on_join_segments)
    then show ?thesis ..
  qed
  have 6: "?q = [] \<longleftrightarrow> ?parts = []" by (rule join_segments_empty)
  have 7: "ascii ''.'' \<notin> set (split_on 47 ?q)"
  proof (cases "?parts = []")
    case True then show ?thesis by simp
  next
    case False
    then have "split_on 47 ?q = ?parts" by (rule split_on_join_segments)
    then show ?thesis using segments_props(2)[of "ascii ''.''" path] by auto
  qed
  have 8: "?q \<noteq> [] \<longrightarrow> [] \<notin> set (split_on 47 ?q)"
  proof
    assume "?q \<noteq> []"
    with 5 have "split_on 47 ?q = ?parts" by simp
    then show "[] \<notin> set (split_on 47 ?q)" using segments_props(1)[of "[]" path] by auto
  qed
  from 1 2 3 4 5 6 7 8 show ?thesis by blast
qed

theorem normalize_relative_path_idempotent_witness:
  "ascii ''..'' \<notin> set (split_on 47 (replace_char 92 47 (ascii ''.//a'' @ [92] @ ascii ''b/'')))
   \<and> normalize_relative_path (ascii ''.//a'' @ [92] @ ascii ''b/'') = Inr (ascii ''a/b'')
   \<and> normalize_relative_path (ascii ''a/b'') = Inr (ascii ''a/b'')
   \<and> split_on 47 (ascii ''a/b'') = [ascii ''a'', ascii ''b'']"
proof -
  have h: "ascii ''..'' \<notin> set (split_on 47 (replace_char 92 47 (ascii ''.//a'' @ [92] @ ascii ''b/'')))"
    by (simp add: ascii_def replace_char_def)
  have v: "normalize_relative_path (ascii ''.//a'' @ [92] @ ascii ''b/'') = Inr (ascii ''a/b'')"
    by (simp add: normalize_relative_path_def ascii_def replace_char_def)
  from normalize_relative_path_idempotent [OF h] v
  have "normalize_relative_path (ascii ''a/b'') = Inr (ascii ''a/b'')" by auto
  moreover have "split_on 47 (ascii ''a/b'') = [ascii ''a'', ascii ''b'']"
    by (simp add: ascii_def)
  ultimately show ?thesis using h v by blast
qed

text \<open>
  The specification promises a result without any empty segment. The path \<^verbatim>\<open>.\<close> has no
  \<^verbatim>\<open>..\<close> segment and normalises to the empty string, and splitting the empty string on
  slashes, as the function itself splits its input, gives one empty segment.
\<close>

theorem normalize_relative_path_empty_counterexample:
  "ascii ''..'' \<notin> set (split_on 47 (replace_char 92 47 (ascii ''.'')))
   \<and> normalize_relative_path (ascii ''.'') = Inr []
   \<and> [] \<in> set (split_on 47 [])"
  by (simp add: normalize_relative_path_def ascii_def replace_char_def)

section \<open>Properties of the canonical serialiser\<close>

lemma insort_key_map_fst:
  assumes "\<And>z. fst (g z) = fst z"
  shows "insort_key fst (g x) (map g ys) = map g (insort_key fst x ys)"
  by (induction ys) (auto simp: assms)

lemma sort_key_map_fst:
  assumes "\<And>z. fst (g z) = fst z"
  shows "sort_key fst (map g xs) = map g (sort_key fst xs)"
  by (induction xs) (auto simp: insort_key_map_fst[OF assms])

lemma distinct_map_sort_key: "distinct (map f (sort_key f xs)) = distinct (map f xs)"
  by (induction xs) (auto simp: distinct_insort_key)

lemma sort_key_dict_unique:
  assumes "distinct (map fst xs)" "distinct (map fst ys)" "map_of xs = map_of ys"
  shows "sort_key fst xs = sort_key fst ys"
proof -
  from assms have s: "set xs = set ys" by (simp add: map_of_inject_set)
  have inj: "inj_on fst (set (sort_key fst xs) \<union> set (sort_key fst ys))"
    using assms(1) s by (simp add: distinct_map)
  show ?thesis
    by (rule map_sorted_distinct_set_unique[OF inj])
       (simp_all add: distinct_map_sort_key assms s)
qed

lemma json_dumps_manifest:
  "json_dumps (ascii '','', ascii '':'') (unsigned_manifest version files)
     = manifest_text version (sort_key fst files)"
proof -
  have k: "sort_key fst [(ascii ''version'', Str version), (ascii ''files'', files_obj files)]
         = [(ascii ''files'', files_obj files), (ascii ''version'', Str version)]"
    by (simp add: ascii_def)
  have m: "sort_key fst (map (\<lambda>p. (fst p, Str (snd p))) files)
         = map (\<lambda>p. (fst p, Str (snd p))) (sort_key fst files)"
    by (rule sort_key_map_fst) simp
  show ?thesis
    unfolding unsigned_manifest_def json_dumps.simps k
    by (simp add: files_obj_def m manifest_text_def entry_text_def[abs_def] encode_basestring_def escape_char_def ascii_def case_prod_unfold comp_def)
qed

lemma byte_of_nat_unat: "n < 256 \<Longrightarrow> unat (of_nat n :: byte) = n"
  by (simp add: unat_of_nat take_bit_nat_eq_self)

lemma utf8_units_bound: "n \<in> set (utf8_units c) \<Longrightarrow> n < 256"
  by (auto simp: utf8_units_def split: if_splits)

lemma utf8_units_high: "128 \<le> c \<Longrightarrow> n \<in> set (utf8_units c) \<Longrightarrow> 128 \<le> n"
  by (auto simp: utf8_units_def split: if_splits)

lemma utf8_units_low: "c < 128 \<Longrightarrow> utf8_units c = [c]"
  by (simp add: utf8_units_def)

lemma byte_of_nat_inj: "n < 256 \<Longrightarrow> m < 256 \<Longrightarrow> (of_nat n :: byte) = of_nat m \<Longrightarrow> n = m"
proof -
  assume a: "n < 256" "m < 256" "(of_nat n :: byte) = of_nat m"
  from a(3) have "unat (of_nat n :: byte) = unat (of_nat m :: byte)" by (rule arg_cong)
  with a(1,2) show "n = m" by (simp only: byte_of_nat_unat)
qed

lemma count_utf8_char_ascii:
  assumes "a < 128"
  shows "count_list (utf8_char c) (of_nat a) = (if c = a then 1 else 0)"
proof (cases "c < 128")
  case True
  with assms have "(of_nat c :: byte) = of_nat a \<longleftrightarrow> c = a"
    using byte_of_nat_inj[of c a] by auto
  with True show ?thesis by (simp add: utf8_char_def utf8_units_low)
next
  case False
  have "(of_nat a :: byte) \<notin> set (utf8_char c)"
  proof
    assume "(of_nat a :: byte) \<in> set (utf8_char c)"
    then obtain n where n: "n \<in> set (utf8_units c)" "(of_nat a :: byte) = of_nat n"
      by (auto simp: utf8_char_def)
    from n(1) have "n < 256" by (rule utf8_units_bound)
    with n(2) assms have "a = n" using byte_of_nat_inj[of a n] by simp
    moreover from False n(1) have "128 \<le> n" using utf8_units_high[of c n] by simp
    ultimately show False using assms by simp
  qed
  then have "count_list (utf8_char c) (of_nat a) = 0" by (simp add: count_list_0_iff)
  with False assms show ?thesis by auto
qed

lemma count_utf8_ascii:
  "a < 128 \<Longrightarrow> count_list (concat (map utf8_char s)) (of_nat a) = count_list s a"
  by (induction s) (auto simp: count_utf8_char_ascii)

lemma hexdigit_ge: "48 \<le> hexdigit n"
  by (simp add: hexdigit_def)

lemma escape_char_printable: "x \<in> set (escape_char c) \<Longrightarrow> 32 \<le> x"
  using hexdigit_ge[of "c div 16"] hexdigit_ge[of "c mod 16"]
  by (auto simp: escape_char_def split: if_splits)

lemma hexdigit_not_space: "hexdigit n \<noteq> 32"
  using hexdigit_ge[of n] by simp

lemma count_escape_char_space: "count_list (escape_char c) 32 = (if c = 32 then 1 else 0)"
  by (simp add: escape_char_def hexdigit_not_space)

lemma count_encode_basestring_space: "count_list (encode_basestring s) 32 = count_list s 32"
  by (induction s) (auto simp: encode_basestring_def count_escape_char_space)

lemma encode_basestring_printable: "x \<in> set (encode_basestring s) \<Longrightarrow> 32 \<le> x"
  by (auto simp: encode_basestring_def dest: escape_char_printable)

lemma escape_char_surrogate:
  "(\<exists>x\<in>set (escape_char c). surrogate x) \<longleftrightarrow> surrogate c"
proof -
  have "\<not> surrogate (hexdigit n)" if "n < 16" for n
    using that by (simp add: hexdigit_def surrogate_def)
  then have h: "c < 32 \<Longrightarrow> \<not> surrogate (hexdigit (c div 16)) \<and> \<not> surrogate (hexdigit (c mod 16))"
    by simp
  have s: "\<not> surrogate 92" "\<not> surrogate 34" "\<not> surrogate 98" "\<not> surrogate 102"
    "\<not> surrogate 110" "\<not> surrogate 114" "\<not> surrogate 116" "\<not> surrogate 117" "\<not> surrogate 48"
    "\<not> surrogate 8" "\<not> surrogate 12" "\<not> surrogate 10" "\<not> surrogate 13" "\<not> surrogate 9"
    by (simp_all add: surrogate_def)
  have lt: "c < 32 \<Longrightarrow> \<not> surrogate c" by (simp add: surrogate_def)
  show ?thesis
    using h s lt by (simp add: escape_char_def)
qed

lemma encode_basestring_surrogate:
  "list_ex surrogate (encode_basestring s) \<longleftrightarrow> list_ex surrogate s"
proof -
  have "\<not> surrogate 34" by (simp add: surrogate_def)
  then show ?thesis
    using escape_char_surrogate
    by (auto simp: encode_basestring_def list_ex_iff)
qed

lemma in_set_join: "x \<in> set (join sep ps) \<Longrightarrow> x \<in> set sep \<or> (\<exists>p\<in>set ps. x \<in> set p)"
  using set_join[of sep ps] by auto

lemma set_join_parts: "p \<in> set ps \<Longrightarrow> set p \<subseteq> set (join sep ps)"
  by (induction sep ps rule: join.induct) auto

lemma count_join_other:
  "y \<notin> set sep \<Longrightarrow> count_list (join sep ps) y = sum_list (map (\<lambda>p. count_list p y) ps)"
  by (induction sep ps rule: join.induct) (auto simp: count_list_0_iff)

lemma sum_list_insort_key: "sum_list (map f (insort_key g x xs)) = f x + sum_list (map f xs)"
  for f :: "'a \<Rightarrow> nat"
  by (induction xs) auto

lemma sum_list_sort_key: "sum_list (map f (sort_key g xs)) = sum_list (map f xs)"
  for f :: "'a \<Rightarrow> nat"
  by (induction xs) (auto simp: sum_list_insort_key)

lemma entry_text_surrogate:
  "list_ex surrogate (entry_text e) \<longleftrightarrow> list_ex surrogate (fst e) \<or> list_ex surrogate (snd e)"
proof -
  have "\<not> list_ex surrogate (ascii '':'')" by (simp add: ascii_def surrogate_def)
  then show ?thesis
    by (simp add: entry_text_def encode_basestring_surrogate list_ex_append)
qed

lemma join_entries_surrogate:
  "list_ex surrogate (join (ascii '','') (map entry_text es))
     \<longleftrightarrow> (\<exists>e\<in>set es. list_ex surrogate (fst e) \<or> list_ex surrogate (snd e))"
proof
  assume "list_ex surrogate (join (ascii '','') (map entry_text es))"
  then obtain x where x: "x \<in> set (join (ascii '','') (map entry_text es))" "surrogate x"
    by (auto simp: list_ex_iff)
  have "\<not> surrogate 44" by (simp add: surrogate_def)
  with in_set_join[OF x(1)] x(2) obtain e where "e \<in> set es" "x \<in> set (entry_text e)"
    by (auto simp: ascii_def)
  with x(2) have "e \<in> set es" "list_ex surrogate (entry_text e)"
    by (auto simp: list_ex_iff)
  then show "\<exists>e\<in>set es. list_ex surrogate (fst e) \<or> list_ex surrogate (snd e)"
    unfolding entry_text_surrogate by blast
next
  assume "\<exists>e\<in>set es. list_ex surrogate (fst e) \<or> list_ex surrogate (snd e)"
  then obtain e where e: "e \<in> set es" "list_ex surrogate (entry_text e)"
    unfolding entry_text_surrogate[symmetric] by blast
  then obtain x where x: "x \<in> set (entry_text e)" "surrogate x"
    by (auto simp: list_ex_iff)
  from e(1) have "entry_text e \<in> set (map entry_text es)" by simp
  from set_join_parts[OF this, of "ascii '',''"] x
  show "list_ex surrogate (join (ascii '','') (map entry_text es))"
    by (auto simp: list_ex_iff)
qed

lemma manifest_text_surrogate:
  "list_ex surrogate (manifest_text v es) \<longleftrightarrow> \<not> manifest_encodable v es"
proof -
  have fixed: "\<not> list_ex surrogate (ascii ''{\"files\":{'')" "\<not> list_ex surrogate (ascii ''},\"version\":'')"
    "\<not> list_ex surrogate (ascii ''}'')"
    by (simp_all add: ascii_def surrogate_def)
  show ?thesis
    unfolding manifest_text_def list_ex_append join_entries_surrogate encode_basestring_surrogate
    using fixed
    by (auto simp: manifest_encodable_def encodable_def list_all_iff)
qed

lemma entry_text_printable: "y \<in> set (entry_text e) \<Longrightarrow> 32 \<le> y"
  by (auto simp: entry_text_def ascii_def dest: encode_basestring_printable)

lemma manifest_text_printable: "x \<in> set (manifest_text v es) \<Longrightarrow> 32 \<le> x"
proof -
  assume x: "x \<in> set (manifest_text v es)"
  have j: "32 \<le> y" if "y \<in> set (join (ascii '','') (map entry_text es))" for y
  proof -
    from in_set_join[OF that] consider "y = 44" | e where "e \<in> set es" "y \<in> set (entry_text e)"
      by (auto simp: ascii_def)
    then show ?thesis
      by cases (auto dest: entry_text_printable)
  qed
  from x consider "x \<in> set (ascii ''{\"files\":{'')" | "x \<in> set (join (ascii '','') (map entry_text es))"
    | "x \<in> set (ascii ''},\"version\":'')" | "x \<in> set (encode_basestring v)" | "x \<in> set (ascii ''}'')"
    unfolding manifest_text_def by auto
  then show ?thesis
  proof cases
    case 1 then show ?thesis by (auto simp: ascii_def)
  next
    case 2 then show ?thesis by (rule j)
  next
    case 3 then show ?thesis by (auto simp: ascii_def)
  next
    case 4 then show ?thesis by (rule encode_basestring_printable)
  next
    case 5 then show ?thesis by (auto simp: ascii_def)
  qed
qed

lemma entry_text_spaces: "spaces (entry_text e) = spaces (fst e) + spaces (snd e)"
  by (simp add: spaces_def entry_text_def count_encode_basestring_space ascii_def)

lemma manifest_text_spaces:
  "spaces (manifest_text v es) = spaces v + sum_list (map (\<lambda>e. spaces (fst e) + spaces (snd e)) es)"
proof -
  have "count_list (join (ascii '','') (map entry_text es)) 32
          = sum_list (map (\<lambda>p. count_list p 32) (map entry_text es))"
    by (rule count_join_other) (simp add: ascii_def)
  also have "\<dots> = sum_list (map (\<lambda>e. spaces (fst e) + spaces (snd e)) es)"
    using entry_text_spaces by (simp add: comp_def spaces_def)
  finally have j: "count_list (join (ascii '','') (map entry_text es)) 32
          = sum_list (map (\<lambda>e. spaces (fst e) + spaces (snd e)) es)" .
  have fixed: "count_list (ascii ''{\"files\":{'') 32 = 0" "count_list (ascii ''},\"version\":'') 32 = 0"
     "count_list (ascii ''}'') 32 = 0"
    by (simp_all add: ascii_def)
  show ?thesis
    unfolding spaces_def manifest_text_def count_list_append j fixed count_encode_basestring_space
    by (simp add: spaces_def)
qed

lemma utf8_printable:
  assumes "\<forall>c\<in>set t. 32 \<le> c" "b \<in> set (concat (map utf8_char t))"
  shows "32 \<le> unat b"
proof -
  from assms(2) obtain c n where c: "c \<in> set t" "n \<in> set (utf8_units c)" "b = of_nat n"
    by (auto simp: utf8_char_def)
  from c(2) have lt: "n < 256" by (rule utf8_units_bound)
  have "32 \<le> n"
  proof (cases "c < 128")
    case True
    with c(2) have "n = c" by (simp add: utf8_units_low)
    with assms(1) c(1) show ?thesis by simp
  next
    case False
    with c(2) have "128 \<le> n" using utf8_units_high[of c n] by simp
    then show ?thesis by simp
  qed
  with lt c(3) show ?thesis by (simp add: byte_of_nat_unat)
qed

lemma canonical_json_manifest_eq:
  "canonical_json (unsigned_manifest v xs) =
     (if manifest_encodable v xs
      then Inr (concat (map utf8_char (manifest_text v (sort_key fst xs))))
      else Inl UnicodeEncodeError)"
proof -
  have "manifest_encodable v (sort_key fst xs) = manifest_encodable v xs"
    by (simp add: manifest_encodable_def list_all_iff)
  then show ?thesis
    by (simp add: canonical_json_def json_dumps_manifest str_encode_utf8_def manifest_text_surrogate)
qed

lemma sorted_keys_strict:
  "distinct (map fst xs) \<Longrightarrow> sorted_wrt (<) (map fst (sort_key fst xs))"
  by (simp add: strict_sorted_iff distinct_map_sort_key)

lemma escape_char_non_ascii: "128 \<le> c \<Longrightarrow> escape_char c = [c]"
  by (simp add: escape_char_def)

text \<open>
  C1 (amended): \<open>canonical_json\<close> is a function of the logical value. Two \<^verbatim>\<open>files\<close>
  dictionaries that hold the same entries, inserted in any order, give the same result.
  When no string of the manifest holds a lone surrogate code point, the result is the UTF-8
  encoding of the manifest text whose \<^verbatim>\<open>files\<close> entries stand in strictly increasing
  order of their keys (lists of code points, compared lexicographically); the tokens are
  separated by one comma or one colon and nothing else, so the output has no byte below
  0x20 (no tab, line feed or carriage return) and exactly as many spaces as the strings of the
  manifest hold. A code point from 128 on is never escaped: it is written as itself and
  reaches the output as its UTF-8 bytes. When some string holds a lone surrogate, the same
  call raises \<^verbatim>\<open>UnicodeEncodeError\<close> and returns no bytes.
\<close>

theorem canonical_json_manifest:
  assumes "distinct (map fst xs)" "distinct (map fst ys)" "map_of xs = map_of ys"
  shows "canonical_json (unsigned_manifest v xs) = canonical_json (unsigned_manifest v ys)
       \<and> (if manifest_encodable v xs
          then \<exists>es bs. canonical_json (unsigned_manifest v xs) = Inr bs
                 \<and> set es = set xs \<and> sorted_wrt (<) (map fst es)
                 \<and> bs = concat (map utf8_char (manifest_text v es))
                 \<and> (\<forall>b\<in>set bs. 32 \<le> unat b)
                 \<and> count_list bs 32 = spaces v + (\<Sum>e\<leftarrow>xs. spaces (fst e) + spaces (snd e))
          else canonical_json (unsigned_manifest v xs) = Inl UnicodeEncodeError)
       \<and> (\<forall>c\<ge>128. escape_char c = [c])"
proof -
  from assms have s: "sort_key fst xs = sort_key fst ys" by (rule sort_key_dict_unique)
  from assms have "set xs = set ys" by (simp add: map_of_inject_set)
  then have "manifest_encodable v xs = manifest_encodable v ys"
    by (simp add: manifest_encodable_def list_all_iff)
  with s have 1: "canonical_json (unsigned_manifest v xs) = canonical_json (unsigned_manifest v ys)"
    by (simp add: canonical_json_manifest_eq)
  let ?es = "sort_key fst xs"
  let ?bs = "concat (map utf8_char (manifest_text v ?es))"
  have 2: "\<exists>es bs. canonical_json (unsigned_manifest v xs) = Inr bs
                 \<and> set es = set xs \<and> sorted_wrt (<) (map fst es)
                 \<and> bs = concat (map utf8_char (manifest_text v es))
                 \<and> (\<forall>b\<in>set bs. 32 \<le> unat b)
                 \<and> count_list bs 32 = spaces v + (\<Sum>e\<leftarrow>xs. spaces (fst e) + spaces (snd e))"
    if enc: "manifest_encodable v xs"
  proof -
    from enc have a: "canonical_json (unsigned_manifest v xs) = Inr ?bs"
      by (simp add: canonical_json_manifest_eq)
    have b: "set ?es = set xs" by simp
    from assms(1) have c: "sorted_wrt (<) (map fst ?es)" by (rule sorted_keys_strict)
    have d: "\<forall>b\<in>set ?bs. 32 \<le> unat b"
      using utf8_printable[of "manifest_text v ?es"] manifest_text_printable[of _ v ?es] by blast
    have "count_list ?bs (of_nat 32) = count_list (manifest_text v ?es) 32"
      by (rule count_utf8_ascii) simp
    then have e: "count_list ?bs 32 = spaces v + (\<Sum>e\<leftarrow>xs. spaces (fst e) + spaces (snd e))"
      using manifest_text_spaces[of v ?es] by (simp add: spaces_def sum_list_sort_key)
    from a b c d e show ?thesis by blast
  qed
  have 3: "canonical_json (unsigned_manifest v xs) = Inl UnicodeEncodeError"
    if "\<not> manifest_encodable v xs"
    using that by (simp add: canonical_json_manifest_eq)
  from 1 2 3 show ?thesis by (simp add: escape_char_non_ascii)
qed

theorem canonical_json_manifest_witness:
  "distinct (map fst [(ascii ''b.txt'', ascii ''00''), (ascii ''a b'', ascii ''ff'')])
   \<and> distinct (map fst [(ascii ''a b'', ascii ''ff''), (ascii ''b.txt'', ascii ''00'')])
   \<and> map_of [(ascii ''b.txt'', ascii ''00''), (ascii ''a b'', ascii ''ff'')]
       = map_of [(ascii ''a b'', ascii ''ff''), (ascii ''b.txt'', ascii ''00'')]
   \<and> manifest_encodable [49, 0xE9] [(ascii ''b.txt'', ascii ''00''), (ascii ''a b'', ascii ''ff'')]
   \<and> canonical_json (unsigned_manifest [49, 0xE9] [(ascii ''b.txt'', ascii ''00''), (ascii ''a b'', ascii ''ff'')])
       = canonical_json (unsigned_manifest [49, 0xE9] [(ascii ''a b'', ascii ''ff''), (ascii ''b.txt'', ascii ''00'')])
   \<and> (\<exists>bs. canonical_json (unsigned_manifest [49, 0xE9] [(ascii ''b.txt'', ascii ''00''), (ascii ''a b'', ascii ''ff'')]) = Inr bs
         \<and> count_list bs 32 = 1)"
proof -
  let ?xs = "[(ascii ''b.txt'', ascii ''00''), (ascii ''a b'', ascii ''ff'')]"
  let ?ys = "[(ascii ''a b'', ascii ''ff''), (ascii ''b.txt'', ascii ''00'')]"
  have h1: "distinct (map fst ?xs)" by (simp add: ascii_def)
  have h2: "distinct (map fst ?ys)" by (simp add: ascii_def)
  have h3: "map_of ?xs = map_of ?ys" by (auto simp: ascii_def fun_eq_iff)
  have h4: "manifest_encodable [49, 0xE9] ?xs"
    by (simp add: manifest_encodable_def encodable_def surrogate_def ascii_def)
  have sp: "spaces [49, 0xE9] + (\<Sum>e\<leftarrow>?xs. spaces (fst e) + spaces (snd e)) = 1"
    by (simp add: spaces_def ascii_def)
  note t = canonical_json_manifest [OF h1 h2 h3, of "[49, 0xE9]"]
  from t have eq: "canonical_json (unsigned_manifest [49, 0xE9] ?xs)
                 = canonical_json (unsigned_manifest [49, 0xE9] ?ys)"
    by (rule conjunct1)
  from h4 conjunct1 [OF conjunct2 [OF t]]
  obtain bs where bs: "canonical_json (unsigned_manifest [49, 0xE9] ?xs) = Inr bs"
    "count_list bs 32 = spaces [49, 0xE9] + (\<Sum>e\<leftarrow>?xs. spaces (fst e) + spaces (snd e))"
    by (simp only: if_True) blast
  from bs(2) sp have "count_list bs 32 = 1" by (simp only:)
  with bs(1) have "\<exists>bs. canonical_json (unsigned_manifest [49, 0xE9] ?xs) = Inr bs \<and> count_list bs 32 = 1"
    by blast
  with h1 h2 h3 h4 eq show ?thesis by blast
qed

text \<open>
  The specification promises bytes for every version string. The string made of the lone
  surrogate U+D800 is a Python string, and for it the encoding step raises.
\<close>

theorem canonical_json_surrogate_counterexample:
  "canonical_json (unsigned_manifest [0xD800] []) = Inl UnicodeEncodeError"
  by (simp add: canonical_json_def unsigned_manifest_def files_obj_def str_encode_utf8_def
      encode_basestring_def escape_char_def surrogate_def ascii_def)

section \<open>Properties of the content hasher\<close>

lemma read_loop_eq: "read_loop rest h = h @ rest"
proof (induction rest h rule: read_loop.induct)
  case (1 rest hasher)
  show ?case
  proof (cases "take 8192 rest = []")
    case True
    then have "rest = []" by simp
    then show ?thesis by (subst read_loop.simps) simp
  next
    case False
    with 1 have "read_loop (drop 8192 rest) (update hasher (take 8192 rest))
                  = update hasher (take 8192 rest) @ drop 8192 rest"
      by simp
    with False show ?thesis
      by (subst read_loop.simps) (simp add: update_def Let_def)
  qed
qed

lemma iter_chunks_eq: "iter_chunks rest h = h @ rest"
proof (induction rest h rule: iter_chunks.induct)
  case (1 rest digest)
  show ?case
  proof (cases "take 8192 rest = []")
    case True
    then have "rest = []" by simp
    then show ?thesis by (subst iter_chunks.simps) simp
  next
    case False
    with 1 have "iter_chunks (drop 8192 rest) (update digest (take 8192 rest))
                  = update digest (take 8192 rest) @ drop 8192 rest"
      by simp
    with False show ?thesis
      by (subst iter_chunks.simps) (simp add: update_def Let_def)
  qed
qed

lemma hexdigit_lower_hex:
  "n < 16 \<Longrightarrow> (48 \<le> hexdigit n \<and> hexdigit n \<le> 57) \<or> (97 \<le> hexdigit n \<and> hexdigit n \<le> 102)"
  by (simp add: hexdigit_def)

lemma hex_byte_lower_hex: "lower_hex (hex_byte b)"
proof -
  have "unat b < 2 ^ LENGTH(8)" by (rule unsigned_less)
  then have "unat b < 256" by simp
  then have "unat b div 16 < 16" "unat b mod 16 < 16" by simp_all
  from hexdigit_lower_hex[OF this(1)] hexdigit_lower_hex[OF this(2)]
  show ?thesis
    by (simp add: lower_hex_def hex_byte_def)
qed

lemma lower_hex_append: "lower_hex (xs @ ys) \<longleftrightarrow> lower_hex xs \<and> lower_hex ys"
  by (simp add: lower_hex_def)

lemma lower_hex_hex: "lower_hex (concat (map hex_byte bs))"
  by (induction bs) (simp_all add: lower_hex_append hex_byte_lower_hex, simp add: lower_hex_def)

lemma hexdigest_lower_hex: "lower_hex (hexdigest L h)"
  by (simp add: hexdigest_def lower_hex_hex)

lemma length_hex: "length (concat (map hex_byte bs)) = 2 * length bs"
  by (induction bs) (simp_all add: hex_byte_def)

lemma length_hexdigest: "length (hexdigest L h) = 2 * length (sha256 L h)"
  by (simp add: hexdigest_def length_hex)

text \<open>
  C8: the three content hashers agree. On every byte sequence, reading the whole file at once
  (\<^verbatim>\<open>build_manifest.sha256_file\<close>), reading it in chunks of 8192 bytes
  (\<^verbatim>\<open>create_manifest.sha256_file\<close>) and the chunked loop over an archive entry in
  \<^verbatim>\<open>hash_zip_members\<close> all return the hexadecimal text of the SHA-256 digest of the full
  content: two characters for each digest byte, each of them one of 0 to 9 and a to f.
\<close>

theorem content_hashers_agree:
  "build_manifest_sha256_file L bs = hexdigest L bs
   \<and> create_manifest_sha256_file L bs = hexdigest L bs
   \<and> member_digest L bs = hexdigest L bs
   \<and> lower_hex (hexdigest L bs)
   \<and> length (hexdigest L bs) = 2 * length (sha256 L bs)"
  by (simp add: build_manifest_sha256_file_def create_manifest_sha256_file_def member_digest_def
      read_loop_eq iter_chunks_eq update_def hashlib_sha256_def hexdigest_lower_hex length_hexdigest)

theorem content_hashers_agree_witness:
  "create_manifest_sha256_file sample [0x68, 0x69, 0xFF] = ascii ''03d0''
   \<and> build_manifest_sha256_file sample [0x68, 0x69, 0xFF] = ascii ''03d0''
   \<and> member_digest sample [0x68, 0x69, 0xFF] = ascii ''03d0''
   \<and> lower_hex (ascii ''03d0'')"
proof -
  have "hexdigest sample [0x68, 0x69, 0xFF] = ascii ''03d0''"
    by (simp add: hexdigest_def sample_def hex_byte_def hexdigit_def ascii_def)
  with content_hashers_agree [of sample "[0x68, 0x69, 0xFF]"] show ?thesis by simp
qed

section \<open>Properties of the manifest loader\<close>

lemma str_strip_empty: "str_strip s = [] \<longleftrightarrow> list_all py_isspace s"
proof
  assume "str_strip s = []"
  then have a: "\<forall>x\<in>set (dropWhile py_isspace s). py_isspace x"
    by (simp add: str_strip_def dropWhile_eq_Nil_conv)
  have "dropWhile py_isspace s = []"
  proof (rule ccontr)
    assume n: "dropWhile py_isspace s \<noteq> []"
    then have "\<not> py_isspace (hd (dropWhile py_isspace s))" by (rule hd_dropWhile)
    moreover from n have "hd (dropWhile py_isspace s) \<in> set (dropWhile py_isspace s)" by simp
    ultimately show False using a by blast
  qed
  then show "list_all py_isspace s" by (simp add: dropWhile_eq_Nil_conv list_all_iff)
next
  assume "list_all py_isspace s"
  then have d: "dropWhile py_isspace s = []" by (simp add: dropWhile_eq_Nil_conv list_all_iff)
  show "str_strip s = []" unfolding str_strip_def d by simp
qed

lemma dict_set_new: "k \<notin> fst ` set d \<Longrightarrow> dict_set d k v = d @ [(k, v)]"
  by (induction d) (auto simp: dict_set_def)

lemma string_entries_bad:
  "\<not> list_all (\<lambda>e. is_str (snd e)) fs \<Longrightarrow> string_entries fs acc = Inl (ValueError NonStringEntry)"
proof (induction fs arbitrary: acc)
  case Nil then show ?case by simp
next
  case (Cons e fs)
  obtain k v where e: "e = (k, v)" by (cases e)
  show ?case
  proof (cases v)
    case (JStr s)
    with Cons e show ?thesis by (simp add: is_str_def)
  qed (simp_all add: e)
qed

lemma string_entries_good:
  assumes "list_all (\<lambda>e. is_str (snd e)) fs"
  shows "\<exists>files. string_entries fs acc = Inr files
          \<and> (distinct (map fst fs) \<and> fst ` set acc \<inter> fst ` set fs = {}
              \<longrightarrow> files = acc @ map (\<lambda>e. (fst e, the_str (snd e))) fs)"
  using assms
proof (induction fs arbitrary: acc)
  case Nil then show ?case by simp
next
  case (Cons e fs)
  obtain k v where e: "e = (k, v)" by (cases e)
  from Cons.prems e obtain s where v: "v = JStr s"
    by (cases v) (simp_all add: is_str_def)
  from Cons.prems have "list_all (\<lambda>e. is_str (snd e)) fs" by simp
  from Cons.IH[OF this, of "dict_set acc k s"]
  obtain files where f: "string_entries fs (dict_set acc k s) = Inr files"
    "distinct (map fst fs) \<and> fst ` set (dict_set acc k s) \<inter> fst ` set fs = {}
       \<longrightarrow> files = dict_set acc k s @ map (\<lambda>e. (fst e, the_str (snd e))) fs"
    by blast
  have r: "string_entries (e # fs) acc = Inr files" using f(1) e v by simp
  have "files = acc @ map (\<lambda>e. (fst e, the_str (snd e))) (e # fs)"
    if d: "distinct (map fst (e # fs))" and i: "fst ` set acc \<inter> fst ` set (e # fs) = {}"
  proof -
    from i e have kn: "k \<notin> fst ` set acc" by auto
    then have ds: "dict_set acc k s = acc @ [(k, s)]" by (rule dict_set_new)
    from d e have "k \<notin> fst ` set fs" "distinct (map fst fs)" by auto
    with i ds have "fst ` set (dict_set acc k s) \<inter> fst ` set fs = {}" by auto
    with f(2) \<open>distinct (map fst fs)\<close> ds
    show ?thesis by (simp add: e v the_str_def)
  qed
  with r show ?case by blast
qed

lemma load_fields_Inl_iff:
  "(\<exists>e. load_fields L d = Inl e) \<longleftrightarrow> version_invalid d \<or> files_invalid d \<or> signature_invalid L d"
proof -
  have g: "\<And>fs. list_all (\<lambda>e. is_str (snd e)) fs \<Longrightarrow> \<exists>files. string_entries fs [] = Inr files"
    using string_entries_good by blast
  have b: "\<And>fs. \<not> list_all (\<lambda>e. is_str (snd e)) fs \<Longrightarrow> string_entries fs [] = Inl (ValueError NonStringEntry)"
    by (rule string_entries_bad)
  have c: "\<And>fs files. string_entries fs [] = Inr files \<Longrightarrow> list_all (\<lambda>e. is_str (snd e)) fs"
    using b by fastforce
  show ?thesis
    unfolding load_fields_def version_invalid_def files_invalid_def signature_invalid_def
    by (auto simp: str_strip_empty split: option.splits json.splits sum.splits dest: g b c)
qed

lemma load_fields_errors:
  "load_fields L d = Inl e \<Longrightarrow>
     e \<in> {ValueError BadVersion, ValueError BadFileList, ValueError NoSignature,
          ValueError BadBase64, ValueError NonStringEntry}"
proof -
  have b: "\<And>fs e. string_entries fs [] = Inl e \<Longrightarrow> e = ValueError NonStringEntry"
  proof -
    fix fs e assume a: "string_entries fs [] = Inl e"
    show "e = ValueError NonStringEntry"
    proof (cases "list_all (\<lambda>e. is_str (snd e)) fs")
      case True
      with string_entries_good[OF True, of "[]"] a show ?thesis by auto
    next
      case False
      with string_entries_bad[OF False, of "[]"] a show ?thesis by simp
    qed
  qed
  assume "load_fields L d = Inl e"
  then show ?thesis
    unfolding load_fields_def
    by (auto split: option.splits json.splits sum.splits if_splits dest: b)
qed

lemma load_fields_Inr:
  assumes "load_fields L d = Inr (v, files, sg)"
  shows "map_of d (ascii ''version'') = Some (JStr v)
       \<and> (\<exists>fs st. map_of d (ascii ''files'') = Some (JDict fs)
              \<and> map_of d (ascii ''signature'') = Some (JStr st)
              \<and> b64decode L st = Some sg
              \<and> (distinct (map fst fs) \<longrightarrow> fs = map (\<lambda>e. (fst e, JStr (snd e))) files))"
proof -
  have k: "fs = map (\<lambda>e. (fst e, JStr (snd e))) files"
    if "string_entries fs [] = Inr files" "distinct (map fst fs)" for fs
  proof (cases "list_all (\<lambda>e. is_str (snd e)) fs")
    case True
    from string_entries_good[OF True, of "[]"] that
    have f: "files = map (\<lambda>e. (fst e, the_str (snd e))) fs" by auto
    have "\<And>e. e \<in> set fs \<Longrightarrow> (fst e, JStr (the_str (snd e))) = e"
    proof -
      fix e assume "e \<in> set fs"
      with True have "is_str (snd e)" by (simp add: list_all_iff)
      then show "(fst e, JStr (the_str (snd e))) = e"
        by (cases e; cases "snd e") (simp_all add: is_str_def the_str_def)
    qed
    then have "map (\<lambda>e. (fst e, JStr (the_str (snd e)))) fs = fs"
      by (simp add: map_idI)
    with f show ?thesis by (simp add: comp_def)
  next
    case False
    with string_entries_bad[OF False, of "[]"] that show ?thesis by simp
  qed
  from assms show ?thesis
    unfolding load_fields_def
    by (auto split: option.splits json.splits sum.splits if_splits dest: k)
qed

lemma load_manifest_not_object:
  "(\<forall>d. data \<noteq> JDict d) \<Longrightarrow> \<exists>e. load_manifest L data = Inl e"
  by (cases data) auto

lemma load_sample_doc:
  "load_manifest sample (JDict sample_doc)
     = Inr (ascii ''1.0'', [(ascii ''a/b.txt'', ascii ''03d0'')], [123, 34])"
  by (simp add: sample_doc_def load_fields_def ascii_def str_strip_def py_isspace_def
      sample_def dict_set_def)

text \<open>
  C6 (amended): on a document that is an object, \<open>load_manifest\<close> raises exactly when
  \<^verbatim>\<open>version\<close> is missing, is no string or holds nothing but white space (the empty string
  included), or \<^verbatim>\<open>files\<close> is missing, is no object or has a value that is no string, or
  \<^verbatim>\<open>signature\<close> is missing, is no string or is refused by the strict base64 decoder. What
  it raises is one of the five \<^verbatim>\<open>ValueError\<close>s of \<open>manifest_errors\<close>. Otherwise it
  returns the version as it stands in the document, the entries of \<^verbatim>\<open>files\<close> unchanged
  and in their order, and the decoded signature. A document that is no object is always
  rejected.
\<close>

theorem load_manifest_spec:
  "((\<exists>e. load_manifest L (JDict d) = Inl e)
       \<longleftrightarrow> version_invalid d \<or> files_invalid d \<or> signature_invalid L d)
   \<and> (\<forall>e. load_manifest L (JDict d) = Inl e \<longrightarrow> e \<in> manifest_errors)
   \<and> (\<forall>v files sg. load_manifest L (JDict d) = Inr (v, files, sg) \<longrightarrow>
         map_of d (ascii ''version'') = Some (JStr v)
         \<and> (\<exists>fs st. map_of d (ascii ''files'') = Some (JDict fs)
               \<and> map_of d (ascii ''signature'') = Some (JStr st)
               \<and> b64decode L st = Some sg
               \<and> (distinct (map fst fs) \<longrightarrow> fs = map (\<lambda>e. (fst e, JStr (snd e))) files)))
   \<and> (\<forall>data. (\<forall>d'. data \<noteq> JDict d') \<longrightarrow> (\<exists>e. load_manifest L data = Inl e))"
proof -
  have 1: "(\<exists>e. load_manifest L (JDict d) = Inl e)
       \<longleftrightarrow> version_invalid d \<or> files_invalid d \<or> signature_invalid L d"
    using load_fields_Inl_iff[of L d] by simp
  have 2: "\<forall>e. load_manifest L (JDict d) = Inl e \<longrightarrow> e \<in> manifest_errors"
    using load_fields_errors[of L d] by (simp add: manifest_errors_def)
  have 3: "\<forall>v files sg. load_manifest L (JDict d) = Inr (v, files, sg) \<longrightarrow>
         map_of d (ascii ''version'') = Some (JStr v)
         \<and> (\<exists>fs st. map_of d (ascii ''files'') = Some (JDict fs)
               \<and> map_of d (ascii ''signature'') = Some (JStr st)
               \<and> b64decode L st = Some sg
               \<and> (distinct (map fst fs) \<longrightarrow> fs = map (\<lambda>e. (fst e, JStr (snd e))) files))"
    using load_fields_Inr[of L d] by simp
  have 4: "\<forall>data. (\<forall>d'. data \<noteq> JDict d') \<longrightarrow> (\<exists>e. load_manifest L data = Inl e)"
    using load_manifest_not_object by blast
  from 1 2 3 4 show ?thesis by blast
qed

theorem load_manifest_spec_witness:
  "\<not> (version_invalid sample_doc \<or> files_invalid sample_doc \<or> signature_invalid sample sample_doc)
   \<and> load_manifest sample (JDict sample_doc)
        = Inr (ascii ''1.0'', [(ascii ''a/b.txt'', ascii ''03d0'')], [123, 34])
   \<and> load_manifest sample (JDict [(ascii ''version'', JInt 1)]) \<in> Inl ` manifest_errors"
proof -
  have a: "\<not> (\<exists>e. load_manifest sample (JDict sample_doc) = Inl e)"
    using load_sample_doc by (auto simp del: load_manifest.simps)
  have b: "version_invalid [(ascii ''version'', JInt 1)]"
    by (simp add: version_invalid_def)
  from a load_manifest_spec [of sample sample_doc]
  have 1: "\<not> (version_invalid sample_doc \<or> files_invalid sample_doc \<or> signature_invalid sample sample_doc)"
    by blast
  from b load_manifest_spec [of sample "[(ascii ''version'', JInt 1)]"]
  have 2: "load_manifest sample (JDict [(ascii ''version'', JInt 1)]) \<in> Inl ` manifest_errors"
    by blast
  from 1 2 load_sample_doc show ?thesis by blast
qed

text \<open>
  The specification rejects a version string only when it is empty. A version of one space
  is a non-empty string, the other two fields are in order, and \<open>load_manifest\<close> raises.
\<close>

theorem load_manifest_blank_version_counterexample:
  "load_manifest sample
     (JDict [(ascii ''version'', JStr (ascii '' '')), (ascii ''files'', JDict []),
             (ascii ''signature'', JStr [])]) = Inl (ValueError BadVersion)
   \<and> \<not> claimed_version_invalid
         [(ascii ''version'', JStr (ascii '' '')), (ascii ''files'', JDict []),
          (ascii ''signature'', JStr [])]
   \<and> \<not> files_invalid
         [(ascii ''version'', JStr (ascii '' '')), (ascii ''files'', JDict []),
          (ascii ''signature'', JStr [])]
   \<and> \<not> signature_invalid sample
         [(ascii ''version'', JStr (ascii '' '')), (ascii ''files'', JDict []),
          (ascii ''signature'', JStr [])]"
  by (simp add: load_fields_def claimed_version_invalid_def files_invalid_def
      signature_invalid_def ascii_def str_strip_def py_isspace_def sample_def)

section \<open>Properties of the signature check\<close>

text \<open>
  C3: the bytes against which \<open>verify_signature\<close> checks the signature are
  \<open>canonical_json\<close> of the dictionary with the two keys \<^verbatim>\<open>version\<close> and \<^verbatim>\<open>files\<close> and
  nothing else; they are the very bytes the builders sign. The check succeeds exactly when
  the key accepts the signature for these bytes. The bytes depend on the version and on the
  entries of \<^verbatim>\<open>files\<close> only: neither the signature nor the order in which the stored
  document lists the entries changes them, and for an encodable manifest they are the UTF-8
  encoding of the canonical manifest text.
\<close>

theorem verify_signature_payload:
  "signature_payload version files
      = canonical_json (Dict [(ascii ''version'', Str version), (ascii ''files'', files_obj files)])
   \<and> manifest_bytes version files = signature_payload version files
   \<and> (verify_signature L version files signature = Inr ()
        \<longleftrightarrow> (\<exists>payload. signature_payload version files = Inr payload
                       \<and> rsa_verify L signature payload))
   \<and> (manifest_encodable version files \<longrightarrow>
        signature_payload version files
          = Inr (concat (map utf8_char (manifest_text version (sort_key fst files)))))
   \<and> (\<forall>files'.
         distinct (map fst files) \<and> distinct (map fst files') \<and> map_of files = map_of files' \<longrightarrow>
         signature_payload version files' = signature_payload version files
         \<and> verify_signature L version files' signature
               = verify_signature L version files signature)"
proof -
  have 1: "signature_payload version files
      = canonical_json (Dict [(ascii ''version'', Str version), (ascii ''files'', files_obj files)])"
    by (simp add: signature_payload_def unsigned_manifest_def)
  have 2: "manifest_bytes version files = signature_payload version files"
    by (simp add: manifest_bytes_def signature_payload_def)
  have 3: "verify_signature L version files signature = Inr ()
        \<longleftrightarrow> (\<exists>payload. signature_payload version files = Inr payload
                       \<and> rsa_verify L signature payload)"
    by (cases "signature_payload version files") (simp_all add: verify_signature_def)
  have 4: "manifest_encodable version files \<longrightarrow>
        signature_payload version files
          = Inr (concat (map utf8_char (manifest_text version (sort_key fst files))))"
    by (simp add: signature_payload_def canonical_json_manifest_eq)
  have 5: "signature_payload version files' = signature_payload version files
         \<and> verify_signature L version files' signature
               = verify_signature L version files signature"
    if "distinct (map fst files) \<and> distinct (map fst files') \<and> map_of files = map_of files'"
    for files'
  proof -
    from that have s: "sort_key fst files = sort_key fst files'"
      using sort_key_dict_unique[of files files'] by blast
    from that have "set files = set files'" using map_of_inject_set[of files files'] by blast
    then have "manifest_encodable version files = manifest_encodable version files'"
      by (simp add: manifest_encodable_def list_all_iff)
    with s have "signature_payload version files' = signature_payload version files"
      by (simp add: signature_payload_def canonical_json_manifest_eq)
    then show ?thesis by (simp add: verify_signature_def)
  qed
  from 1 2 3 4 5 show ?thesis by blast
qed

theorem verify_signature_payload_witness:
  "manifest_encodable (ascii ''1.0'') [(ascii ''a/b.txt'', ascii ''03d0'')]
   \<and> signature_payload (ascii ''1.0'') [(ascii ''a/b.txt'', ascii ''03d0'')]
        = Inr (map of_nat (ascii ''{\"files\":{\"a/b.txt\":\"03d0\"},\"version\":\"1.0\"}''))
   \<and> verify_signature sample (ascii ''1.0'') [(ascii ''a/b.txt'', ascii ''03d0'')] [123, 34] = Inr ()"
proof -
  let ?fs = "[(ascii ''a/b.txt'', ascii ''03d0'')]"
  have e: "manifest_encodable (ascii ''1.0'') ?fs"
    by (simp add: manifest_encodable_def encodable_def surrogate_def ascii_def)
  have t: "concat (map utf8_char (manifest_text (ascii ''1.0'') (sort_key fst ?fs)))
         = map of_nat (ascii ''{\"files\":{\"a/b.txt\":\"03d0\"},\"version\":\"1.0\"}'')"
    by (simp add: manifest_text_def entry_text_def encode_basestring_def escape_char_def
        utf8_char_def utf8_units_def ascii_def)
  note v = verify_signature_payload [of "ascii ''1.0''" ?fs sample "[123, 34]"]
  note v3 = v [THEN conjunct2, THEN conjunct2, THEN conjunct1]
  note v4 = v [THEN conjunct2, THEN conjunct2, THEN conjunct2, THEN conjunct1]
  from v4 e have "signature_payload (ascii ''1.0'') ?fs
        = Inr (concat (map utf8_char (manifest_text (ascii ''1.0'') (sort_key fst ?fs))))"
    by (rule mp)
  then have p: "signature_payload (ascii ''1.0'') ?fs
        = Inr (map of_nat (ascii ''{\"files\":{\"a/b.txt\":\"03d0\"},\"version\":\"1.0\"}''))"
    by (simp only: t)
  have r: "rsa_verify sample [123, 34]
             (map of_nat (ascii ''{\"files\":{\"a/b.txt\":\"03d0\"},\"version\":\"1.0\"}''))"
    by (simp add: sample_def ascii_def)
  from p r have "\<exists>payload. signature_payload (ascii ''1.0'') ?fs = Inr payload
                   \<and> rsa_verify sample [123, 34] payload"
    by blast
  with v3 have "verify_signature sample (ascii ''1.0'') ?fs [123, 34] = Inr ()"
    by (rule iffD2)
  with e p show ?thesis by blast
qed

section \<open>Properties of the archive hasher\<close>

lemma normalize_relative_path_cases:
  "normalize_relative_path p = (if traversal p then Inl (ValueError DotDot) else Inr (normal_form p))"
  by (simp add: normalize_relative_path_eq traversal_def normal_form_def)

lemma dict_has_iff: "dict_has d k \<longleftrightarrow> k \<in> fst ` set d"
  by (simp add: dict_has_def map_of_eq_None_iff)

lemma member_digest_eq: "member_digest L bs = hexdigest L bs"
  by (simp add: member_digest_def iter_chunks_eq hashlib_sha256_def)

lemma hash_zip_loop_members: "hash_zip_loop L es h = hash_zip_loop L (members es) h"
  by (induction es arbitrary: h) (auto simp: members_def split: sum.splits)

lemma members_no_dir: "i \<in> set (members es) \<Longrightarrow> \<not> is_dir i"
  by (simp add: members_def)

lemma hash_zip_loop_prefix:
  assumes "\<forall>i\<in>set pre. \<not> is_dir i" "list_all (\<lambda>i. \<not> traversal (filename i)) pre"
    "distinct (map fst h @ normal_names pre)"
  shows "hash_zip_loop L (pre @ rest) h = hash_zip_loop L rest (h @ map (hashed_member L) pre)"
  using assms
proof (induction pre arbitrary: h)
  case Nil then show ?case by simp
next
  case (Cons i pre)
  let ?p = "normal_form (filename i)"
  from Cons.prems have i: "\<not> is_dir i" "\<not> traversal (filename i)" "?p \<notin> fst ` set h"
    by (auto simp: normal_names_def)
  let ?h = "dict_set h ?p (member_digest L (content i))"
  from i(3) have hs: "?h = h @ [hashed_member L i]"
    by (simp add: dict_set_new member_digest_eq hashed_member_def)
  have step: "hash_zip_loop L ((i # pre) @ rest) h = hash_zip_loop L (pre @ rest) ?h"
    using i by (simp add: normalize_relative_path_cases dict_has_iff)
  from Cons.prems have a: "\<forall>i\<in>set pre. \<not> is_dir i" "list_all (\<lambda>i. \<not> traversal (filename i)) pre"
    by auto
  from Cons.prems(3) have d: "distinct (map fst ?h @ normal_names pre)"
    by (simp add: hs hashed_member_def normal_names_def)
  from Cons.IH[OF a d] show ?case
    unfolding step by (simp add: hs)
qed

lemma hash_zip_members_unobjectionable:
  assumes "unobjectionable (members infolist)"
  shows "hash_zip_members L infolist = Inr (map (hashed_member L) (members infolist))"
proof -
  have e: "hash_zip_loop L infolist [] = hash_zip_loop L (members infolist) []"
    by (rule hash_zip_loop_members)
  have "hash_zip_loop L (members infolist @ []) [] = hash_zip_loop L [] ([] @ map (hashed_member L) (members infolist))"
    using assms by (intro hash_zip_loop_prefix) (auto simp: unobjectionable_def members_def)
  then show ?thesis by (simp add: hash_zip_members_def e)
qed

lemma hash_zip_members_first_offence:
  assumes m: "members infolist = pre @ i # post" and c: "unobjectionable pre"
  shows "traversal (filename i) \<Longrightarrow> hash_zip_members L infolist = Inl (ValueError DotDot)"
    and "\<not> traversal (filename i) \<Longrightarrow> normal_form (filename i) \<in> set (normal_names pre) \<Longrightarrow>
          hash_zip_members L infolist = Inl (ValueError (DuplicateZip (normal_form (filename i))))"
proof -
  have e: "hash_zip_loop L infolist [] = hash_zip_loop L (members infolist) []"
    by (rule hash_zip_loop_members)
  from m have nd: "\<forall>x\<in>set pre. \<not> is_dir x" "\<not> is_dir i"
    using members_no_dir[of _ infolist] by auto
  have p: "hash_zip_loop L (pre @ i # post) [] = hash_zip_loop L (i # post) ([] @ map (hashed_member L) pre)"
    using c nd(1) by (intro hash_zip_loop_prefix) (auto simp: unobjectionable_def)
  have k: "fst ` set (map (hashed_member L) pre) = set (normal_names pre)"
    by (auto simp: hashed_member_def normal_names_def image_iff)
  show "traversal (filename i) \<Longrightarrow> hash_zip_members L infolist = Inl (ValueError DotDot)"
    using nd(2) by (simp add: hash_zip_members_def e m p normalize_relative_path_cases)
  show "\<not> traversal (filename i) \<Longrightarrow> normal_form (filename i) \<in> set (normal_names pre) \<Longrightarrow>
          hash_zip_members L infolist = Inl (ValueError (DuplicateZip (normal_form (filename i))))"
    using nd(2) k by (simp add: hash_zip_members_def e m p normalize_relative_path_cases dict_has_iff)
qed

lemma first_offence_exists:
  "\<not> unobjectionable ms \<Longrightarrow>
     \<exists>pre i post. ms = pre @ i # post \<and> unobjectionable pre
        \<and> (traversal (filename i) \<or> normal_form (filename i) \<in> set (normal_names pre))"
proof (induction ms rule: rev_induct)
  case Nil
  then show ?case by (simp add: unobjectionable_def normal_names_def)
next
  case (snoc x ms)
  show ?case
  proof (cases "unobjectionable ms")
    case True
    with snoc.prems have "traversal (filename x) \<or> normal_form (filename x) \<in> set (normal_names ms)"
      by (auto simp: unobjectionable_def normal_names_def)
    with True have "ms @ [x] = ms @ x # [] \<and> unobjectionable ms
        \<and> (traversal (filename x) \<or> normal_form (filename x) \<in> set (normal_names ms))"
      by simp
    then show ?thesis by blast
  next
    case False
    from snoc.IH[OF False] obtain pre i post where
      d: "ms = pre @ i # post" "unobjectionable pre"
         "traversal (filename i) \<or> normal_form (filename i) \<in> set (normal_names pre)"
      by blast
    from d(1) have "ms @ [x] = pre @ i # (post @ [x])" by simp
    with d(2,3) show ?thesis by blast
  qed
qed

lemma normal_form_examples:
  "normal_form (ascii ''a'') = ascii ''a''" "normal_form (ascii ''./a'') = ascii ''a''"
  "normal_form (ascii ''a/./b.txt'') = ascii ''a/b.txt''"
  "\<not> traversal (ascii ''a'')" "\<not> traversal (ascii ''./a'')" "\<not> traversal (ascii ''a/./b.txt'')"
  "traversal (ascii ''../x'')"
  by (simp_all add: normal_form_def traversal_def segments_def ascii_def replace_char_def
      kept_segment_def)

text \<open>
  C5 (amended): \<open>hash_zip_members\<close> skips every directory entry. It raises exactly when,
  among the other entries, some name has a \<^verbatim>\<open>..\<close> segment or two names normalise to the
  same path. The first entry in archive order that has a \<^verbatim>\<open>..\<close> segment in its name or
  normalises to the path of an earlier entry decides the error: the path-security
  \<^verbatim>\<open>ValueError\<close> in the first case, the duplicate-entry \<^verbatim>\<open>ValueError\<close> for that path in the
  second. When there is no such entry it returns the dictionary that maps, in archive order,
  each normalised name to the hexadecimal SHA-256 digest of the entry's bytes.
\<close>

theorem hash_zip_members_spec:
  "hash_zip_members L infolist = hash_zip_members L (members infolist)
   \<and> ((\<exists>e. hash_zip_members L infolist = Inl e) \<longleftrightarrow> \<not> unobjectionable (members infolist))
   \<and> (unobjectionable (members infolist) \<longrightarrow>
         hash_zip_members L infolist = Inr (map (hashed_member L) (members infolist)))
   \<and> (\<not> unobjectionable (members infolist) \<longrightarrow>
         (\<exists>pre i post. members infolist = pre @ i # post \<and> unobjectionable pre
             \<and> (traversal (filename i) \<or> normal_form (filename i) \<in> set (normal_names pre))))
   \<and> (\<forall>pre i post. members infolist = pre @ i # post \<and> unobjectionable pre \<longrightarrow>
         (traversal (filename i) \<longrightarrow> hash_zip_members L infolist = Inl (ValueError DotDot))
         \<and> (\<not> traversal (filename i) \<and> normal_form (filename i) \<in> set (normal_names pre) \<longrightarrow>
              hash_zip_members L infolist
                = Inl (ValueError (DuplicateZip (normal_form (filename i))))))"
proof -
  have 1: "hash_zip_members L infolist = hash_zip_members L (members infolist)"
    unfolding hash_zip_members_def by (rule hash_zip_loop_members)
  have 3: "unobjectionable (members infolist) \<longrightarrow>
         hash_zip_members L infolist = Inr (map (hashed_member L) (members infolist))"
    using hash_zip_members_unobjectionable by blast
  have 4: "\<not> unobjectionable (members infolist) \<longrightarrow>
         (\<exists>pre i post. members infolist = pre @ i # post \<and> unobjectionable pre
             \<and> (traversal (filename i) \<or> normal_form (filename i) \<in> set (normal_names pre)))"
    using first_offence_exists by blast
  have 5: "\<forall>pre i post. members infolist = pre @ i # post \<and> unobjectionable pre \<longrightarrow>
         (traversal (filename i) \<longrightarrow> hash_zip_members L infolist = Inl (ValueError DotDot))
         \<and> (\<not> traversal (filename i) \<and> normal_form (filename i) \<in> set (normal_names pre) \<longrightarrow>
              hash_zip_members L infolist
                = Inl (ValueError (DuplicateZip (normal_form (filename i)))))"
    using hash_zip_members_first_offence by blast
  have 2: "(\<exists>e. hash_zip_members L infolist = Inl e) \<longleftrightarrow> \<not> unobjectionable (members infolist)"
  proof
    assume "\<exists>e. hash_zip_members L infolist = Inl e"
    with 3 show "\<not> unobjectionable (members infolist)" by auto
  next
    assume "\<not> unobjectionable (members infolist)"
    with 4 obtain pre i post where d: "members infolist = pre @ i # post" "unobjectionable pre"
      "traversal (filename i) \<or> normal_form (filename i) \<in> set (normal_names pre)"
      by blast
    show "\<exists>e. hash_zip_members L infolist = Inl e"
    proof (cases "traversal (filename i)")
      case True
      with 5 d(1,2) show ?thesis by blast
    next
      case False
      with d(3) have "normal_form (filename i) \<in> set (normal_names pre)" by simp
      with 5 d(1,2) False show ?thesis by blast
    qed
  qed
  from 1 2 3 4 5 show ?thesis by blast
qed

theorem hash_zip_members_spec_witness:
  "unobjectionable (members sample_zip)
   \<and> hash_zip_members sample sample_zip = Inr [(ascii ''a/b.txt'', ascii ''03d0'')]
   \<and> hash_zip_members sample
        [entry_named (ascii ''a''), entry_named (ascii ''./a''), entry_named (ascii ''../x'')]
       = Inl (ValueError (DuplicateZip (ascii ''a'')))
   \<and> hash_zip_members sample
        [entry_named (ascii ''../x''), entry_named (ascii ''a''), entry_named (ascii ''./a'')]
       = Inl (ValueError DotDot)"
proof -
  let ?a = "entry_named (ascii ''a'')" and ?b = "entry_named (ascii ''./a'')"
    and ?x = "entry_named (ascii ''../x'')"
  have m: "members sample_zip
         = [\<lparr>filename = ascii ''a/./b.txt'', is_dir = False, content = [0x68, 0x69, 0xFF]\<rparr>]"
    by (simp add: members_def sample_zip_def)
  have u: "unobjectionable (members sample_zip)"
    by (simp add: m unobjectionable_def normal_names_def normal_form_examples)
  have d: "hexdigest sample [0x68, 0x69, 0xFF] = ascii ''03d0''"
    by (simp add: hexdigest_def sample_def hex_byte_def hexdigit_def ascii_def)
  from hash_zip_members_spec [of sample sample_zip, THEN conjunct2, THEN conjunct2, THEN conjunct1] u
  have "hash_zip_members sample sample_zip = Inr (map (hashed_member sample) (members sample_zip))"
    by (rule mp)
  then have r: "hash_zip_members sample sample_zip = Inr [(ascii ''a/b.txt'', ascii ''03d0'')]"
    by (simp add: m hashed_member_def d normal_form_examples)
  note first = hash_zip_members_spec
    [THEN conjunct2, THEN conjunct2, THEN conjunct2, THEN conjunct2, rule_format]
  have m1: "members [?a, ?b, ?x] = [?a] @ ?b # [?x]"
    by (simp add: members_def entry_named_def)
  have u1: "unobjectionable [?a]"
    by (simp add: unobjectionable_def normal_names_def entry_named_def normal_form_examples)
  have c1: "\<not> traversal (filename ?b) \<and> normal_form (filename ?b) \<in> set (normal_names [?a])"
    by (simp add: normal_names_def entry_named_def normal_form_examples)
  from first [where infolist = "[?a, ?b, ?x]" and pre = "[?a]" and i = ?b and post = "[?x]"
      and L = sample, THEN conjunct2] m1 u1 c1
  have "hash_zip_members sample [?a, ?b, ?x]
          = Inl (ValueError (DuplicateZip (normal_form (filename ?b))))"
    by blast
  then have r1: "hash_zip_members sample [?a, ?b, ?x] = Inl (ValueError (DuplicateZip (ascii ''a'')))"
    by (simp add: entry_named_def normal_form_examples)
  have m2: "members [?x, ?a, ?b] = [] @ ?x # [?a, ?b]"
    by (simp add: members_def entry_named_def)
  have u2: "unobjectionable []" by (simp add: unobjectionable_def normal_names_def)
  have c2: "traversal (filename ?x)" by (simp add: entry_named_def normal_form_examples)
  from first [where infolist = "[?x, ?a, ?b]" and pre = "[]" and i = ?x and post = "[?a, ?b]"
      and L = sample, THEN conjunct1] m2 u2 c2
  have r2: "hash_zip_members sample [?x, ?a, ?b] = Inl (ValueError DotDot)"
    by blast
  from u r r1 r2 show ?thesis by blast
qed

text \<open>
  The specification promises a dictionary whenever no two entries collide. An archive with
  the single entry \<^verbatim>\<open>../evil.bin\<close> has no collision, and the traversal guard raises.
\<close>

theorem hash_zip_members_traversal_counterexample:
  "hash_zip_members sample [\<lparr>filename = ascii ''../evil.bin'', is_dir = False, content = []\<rparr>]
     = Inl (ValueError DotDot)"
  by (simp add: hash_zip_members_def normalize_relative_path_def ascii_def replace_char_def)

section \<open>Properties of the validator\<close>

lemma compare_loop_eq:
  "compare_loop L archive manifest ms hs
     = (ms @ missing_paths archive manifest, hs @ mismatched_paths L archive manifest)"
proof (induction manifest arbitrary: ms hs)
  case Nil
  then show ?case by (simp add: missing_paths_def mismatched_paths_def)
next
  case (Cons e manifest)
  obtain p expected where e: "e = (p, expected)" by (cases e)
  show ?case
  proof (cases "map_of archive p")
    case None
    with Cons e show ?thesis
      by (simp add: missing_paths_def mismatched_paths_def differs_def dict_has_def)
  next
    case (Some h)
    with Cons e show ?thesis
      by (simp add: missing_paths_def mismatched_paths_def differs_def dict_has_def)
  qed
qed

lemma set_missing_paths:
  "set (missing_paths archive manifest) = fst ` set manifest - fst ` set archive"
  by (auto simp: missing_paths_def dict_has_iff)

lemma set_extra_files:
  "set (extra_files archive manifest) = fst ` set archive - fst ` set manifest"
  by (auto simp: extra_files_def dict_has_iff)

lemma set_mismatched_paths:
  "distinct (map fst manifest) \<Longrightarrow>
   set (mismatched_paths L archive manifest)
     = {p. \<exists>expected h. map_of manifest p = Some expected \<and> map_of archive p = Some h
                        \<and> str_lower L h \<noteq> expected}"
  by (auto simp: mismatched_paths_def differs_def image_iff split: option.splits)

lemma validate_loaded_eq:
  assumes "verify_signature L version files signature = Inr ()"
    "hash_zip_members L infolist = Inr archive"
    "normalize_manifest_files L files = Inr manifest"
  shows "validate_loaded L (version, files, signature) infolist strict
           = reconciled L version archive manifest strict"
  using assms
  by (simp add: validate_loaded_def compare_loop_eq reconciled_def Let_def)

lemma validate_loaded_Inr:
  assumes "validate_loaded L (version, files, signature) infolist strict = Inr out"
  shows "\<exists>archive manifest.
           verify_signature L version files signature = Inr ()
         \<and> hash_zip_members L infolist = Inr archive
         \<and> normalize_manifest_files L files = Inr manifest"
  using assms
  by (auto simp: validate_loaded_def split: sum.splits error.splits)

lemma reconciled_Inr_iff:
  "(\<exists>out. reconciled L version archive manifest strict = Inr out)
     \<longleftrightarrow> missing_paths archive manifest = [] \<and> mismatched_paths L archive manifest = []
         \<and> (extra_files archive manifest = [] \<or> \<not> strict)"
  by (auto simp: reconciled_def)

lemma dict_set_map_of: "map_of (dict_set d k v) = (map_of d)(k \<mapsto> v)"
  by (simp add: dict_set_def update_conv')

lemma dict_set_distinct: "distinct (map fst d) \<Longrightarrow> distinct (map fst (dict_set d k v))"
  by (simp add: dict_set_def distinct_update)

lemma last_digest_Nil: "last_digest L [] p = None"
  by (simp add: last_digest_def)

lemma last_digest_Cons:
  "last_digest L (e # files) p =
     (case last_digest L files p of
        Some d \<Rightarrow> Some d
      | None \<Rightarrow> if normal_form (fst e) = p then Some (str_lower L (snd e)) else None)"
  by (simp add: last_digest_def split: list.splits)

lemma normalize_manifest_loop_Inl:
  "normalize_manifest_loop L files acc = Inl e \<Longrightarrow> e = ValueError DotDot"
proof (induction files arbitrary: acc)
  case Nil then show ?case by simp
next
  case (Cons x files)
  obtain k v where x: "x = (k, v)" by (cases x)
  from Cons.prems Cons.IH show ?case
    by (auto simp: x normalize_relative_path_cases split: if_splits)
qed

lemma normalize_manifest_loop_Inr:
  "normalize_manifest_loop L files acc = Inr nm \<Longrightarrow> distinct (map fst acc) \<Longrightarrow>
     distinct (map fst nm)
     \<and> map_of nm p = (case last_digest L files p of Some d \<Rightarrow> Some d | None \<Rightarrow> map_of acc p)"
proof (induction files arbitrary: acc)
  case Nil then show ?case by (simp add: last_digest_Nil)
next
  case (Cons x files)
  obtain k v where x: "x = (k, v)" by (cases x)
  from Cons.prems(1) x have nt: "\<not> traversal k"
    by (auto simp: normalize_relative_path_cases split: if_splits)
  let ?acc = "dict_set acc (normal_form k) (str_lower L v)"
  from Cons.prems(1) x nt have r: "normalize_manifest_loop L files ?acc = Inr nm"
    by (simp add: normalize_relative_path_cases)
  from Cons.prems(2) have d: "distinct (map fst ?acc)" by (rule dict_set_distinct)
  from Cons.IH[OF r d] show ?case
    by (auto simp: last_digest_Cons x dict_set_map_of split: option.splits)
qed

lemma normalize_manifest_files_Inr:
  "normalize_manifest_files L files = Inr nm \<Longrightarrow>
     distinct (map fst nm) \<and> map_of nm p = last_digest L files p"
  using normalize_manifest_loop_Inr[of L files "[]" nm p]
  by (auto simp: normalize_manifest_files_def split: option.splits)

lemma verify_signature_errors:
  "verify_signature L version files signature = Inl e \<Longrightarrow> e = UnicodeEncodeError \<or> e = InvalidSignature"
  by (auto simp: verify_signature_def signature_payload_def canonical_json_def str_encode_utf8_def
      split: sum.splits if_splits)

lemma reconciled_errors:
  "reconciled L version archive manifest strict \<noteq> Inl (ValueError (DuplicateZip p))"
  by (simp add: reconciled_def)

lemma load_manifest_errors:
  "load_manifest L data = Inl e \<Longrightarrow> e \<in> manifest_errors \<or> e = TypeError"
proof (cases data)
  case (JDict d)
  assume "load_manifest L data = Inl e"
  with JDict load_fields_errors[of L d e] show ?thesis by (simp add: manifest_errors_def)
qed (auto simp: manifest_errors_def split: if_splits)

lemma validate_loaded_duplicate:
  assumes "validate_loaded L (version, files, signature) infolist strict
             = Inl (ValueError (DuplicateZip p))"
  shows "hash_zip_members L infolist = Inl (ValueError (DuplicateZip p))"
proof (cases "verify_signature L version files signature")
  case (Inl e)
  with verify_signature_errors[OF Inl] assms show ?thesis
    by (auto simp: validate_loaded_def)
next
  case (Inr u)
  show ?thesis
  proof (cases "hash_zip_members L infolist")
    case (Inl e)
    with Inr assms show ?thesis by (simp add: validate_loaded_def)
  next
    case archive: (Inr archive)
    show ?thesis
    proof (cases "normalize_manifest_files L files")
      case (Inl e)
      then have "e = ValueError DotDot"
        unfolding normalize_manifest_files_def by (rule normalize_manifest_loop_Inl)
      with Inl Inr archive assms show ?thesis by (simp add: validate_loaded_def)
    next
      case nm: (Inr nm)
      from Inr have "verify_signature L version files signature = Inr ()" by simp
      from validate_loaded_eq[OF this archive nm, of strict] assms
      have "reconciled L version archive nm strict = Inl (ValueError (DuplicateZip p))" by simp
      with reconciled_errors[of L version archive nm strict p] show ?thesis by simp
    qed
  qed
qed

lemma validate_payload_Inr_iff:
  "(\<exists>out. validate_payload L data infolist strict = Inr out) \<longleftrightarrow>
      (\<exists>version files signature archive manifest.
          load_manifest L data = Inr (version, files, signature)
        \<and> verify_signature L version files signature = Inr ()
        \<and> hash_zip_members L infolist = Inr archive
        \<and> normalize_manifest_files L files = Inr manifest
        \<and> missing_paths archive manifest = []
        \<and> mismatched_paths L archive manifest = []
        \<and> (extra_files archive manifest = [] \<or> \<not> strict))"
proof
  assume "\<exists>out. validate_payload L data infolist strict = Inr out"
  then obtain out where out: "validate_payload L data infolist strict = Inr out" ..
  then obtain m where m: "load_manifest L data = Inr m"
    by (cases "load_manifest L data") (simp_all add: validate_payload_def)
  obtain version files signature where mm: "m = (version, files, signature)" by (cases m)
  from out m mm have v: "validate_loaded L (version, files, signature) infolist strict = Inr out"
    by (simp add: validate_payload_def)
  from validate_loaded_Inr[OF v] obtain archive manifest where s:
    "verify_signature L version files signature = Inr ()"
    "hash_zip_members L infolist = Inr archive"
    "normalize_manifest_files L files = Inr manifest"
    by blast
  from validate_loaded_eq[OF s, of strict] v
  have "\<exists>out. reconciled L version archive manifest strict = Inr out" by metis
  then have "missing_paths archive manifest = [] \<and> mismatched_paths L archive manifest = []
         \<and> (extra_files archive manifest = [] \<or> \<not> strict)"
    by (simp only: reconciled_Inr_iff)
  with m mm s show "\<exists>version files signature archive manifest.
          load_manifest L data = Inr (version, files, signature)
        \<and> verify_signature L version files signature = Inr ()
        \<and> hash_zip_members L infolist = Inr archive
        \<and> normalize_manifest_files L files = Inr manifest
        \<and> missing_paths archive manifest = []
        \<and> mismatched_paths L archive manifest = []
        \<and> (extra_files archive manifest = [] \<or> \<not> strict)"
    by blast
next
  assume "\<exists>version files signature archive manifest.
          load_manifest L data = Inr (version, files, signature)
        \<and> verify_signature L version files signature = Inr ()
        \<and> hash_zip_members L infolist = Inr archive
        \<and> normalize_manifest_files L files = Inr manifest
        \<and> missing_paths archive manifest = []
        \<and> mismatched_paths L archive manifest = []
        \<and> (extra_files archive manifest = [] \<or> \<not> strict)"
  then obtain version files signature archive manifest where
    m: "load_manifest L data = Inr (version, files, signature)" and
    s: "verify_signature L version files signature = Inr ()"
       "hash_zip_members L infolist = Inr archive"
       "normalize_manifest_files L files = Inr manifest" and
    e: "missing_paths archive manifest = [] \<and> mismatched_paths L archive manifest = []
         \<and> (extra_files archive manifest = [] \<or> \<not> strict)"
    by blast
  from e have "\<exists>out. reconciled L version archive manifest strict = Inr out"
    by (simp only: reconciled_Inr_iff)
  with validate_loaded_eq[OF s, of strict] m
  show "\<exists>out. validate_payload L data infolist strict = Inr out"
    by (simp add: validate_payload_def)
qed

lemma validate_payload_reconciled:
  assumes "load_manifest L data = Inr (version, files, signature)"
    "verify_signature L version files signature = Inr ()"
    "hash_zip_members L infolist = Inr archive"
    "normalize_manifest_files L files = Inr manifest"
  shows "validate_payload L data infolist strict = reconciled L version archive manifest strict"
  using validate_loaded_eq[OF assms(2,3,4), of strict] assms(1)
  by (simp add: validate_payload_def)

lemma hexdigest_sample: "hexdigest sample [0x68, 0x69, 0xFF] = ascii ''03d0''"
  by (simp add: hexdigest_def sample_def hex_byte_def hexdigit_def ascii_def)

lemma hexdigest_sample_empty: "hexdigest sample [] = ascii ''0000''"
  by (simp add: hexdigest_def sample_def hex_byte_def hexdigit_def ascii_def)

lemma normalize_a_b_txt:
  "normalize_relative_path (ascii ''a/./b.txt'') = Inr (ascii ''a/b.txt'')"
  "normalize_relative_path (ascii ''a/b.txt'') = Inr (ascii ''a/b.txt'')"
  "normalize_relative_path (ascii ''notes.txt'') = Inr (ascii ''notes.txt'')"
  by (simp_all add: normalize_relative_path_def ascii_def replace_char_def)

lemma hash_sample_zip:
  "hash_zip_members sample sample_zip = Inr [(ascii ''a/b.txt'', ascii ''03d0'')]"
  by (simp add: hash_zip_members_def sample_zip_def normalize_a_b_txt dict_has_def dict_set_def
      member_digest_eq hexdigest_sample)

lemma hash_sample_zip_extra:
  "hash_zip_members sample (sample_zip @ [extra_entry])
     = Inr [(ascii ''a/b.txt'', ascii ''03d0''), (ascii ''notes.txt'', ascii ''0000'')]"
  by (simp add: hash_zip_members_def sample_zip_def extra_entry_def normalize_a_b_txt
      dict_has_def dict_set_def member_digest_eq hexdigest_sample hexdigest_sample_empty)
     (simp add: ascii_def)

lemma hash_empty_zip: "hash_zip_members sample [] = Inr []"
  by (simp add: hash_zip_members_def)

lemma normalize_sample_files:
  "normalize_manifest_files sample [(ascii ''a/b.txt'', ascii ''03d0'')]
     = Inr [(ascii ''a/b.txt'', ascii ''03d0'')]"
  by (simp add: normalize_manifest_files_def normalize_a_b_txt dict_set_def)
     (simp add: sample_def ascii_def)

lemma verify_sample:
  "verify_signature sample (ascii ''1.0'') [(ascii ''a/b.txt'', ascii ''03d0'')] [123, 34] = Inr ()"
proof -
  have e: "manifest_encodable (ascii ''1.0'') [(ascii ''a/b.txt'', ascii ''03d0'')]"
    by (simp add: manifest_encodable_def encodable_def surrogate_def ascii_def)
  have t: "concat (map utf8_char (manifest_text (ascii ''1.0'') [(ascii ''a/b.txt'', ascii ''03d0'')]))
         = map of_nat (ascii ''{\"files\":{\"a/b.txt\":\"03d0\"},\"version\":\"1.0\"}'')"
    by (simp add: manifest_text_def entry_text_def encode_basestring_def escape_char_def
        utf8_char_def utf8_units_def ascii_def)
  have "signature_payload (ascii ''1.0'') [(ascii ''a/b.txt'', ascii ''03d0'')]
         = Inr (map of_nat (ascii ''{\"files\":{\"a/b.txt\":\"03d0\"},\"version\":\"1.0\"}''))"
    using e t by (simp add: signature_payload_def canonical_json_manifest_eq)
  then show ?thesis
    by (simp add: verify_signature_def) (simp add: sample_def ascii_def)
qed

text \<open>
  C2: \<open>validate_payload\<close> reports success exactly when the manifest loads, the signature
  check passes, the archive is hashed, the manifest paths normalise, no manifest path is
  missing from the archive map, no path has a digest that differs, and no archive path is
  extra or strict mode is off. Once the four stages have passed, the checks run in this
  order: missing paths, and after them differing digests, are an integrity failure whatever
  the flag; then extra paths are a policy failure in strict mode, and a printed warning
  before the success line otherwise. Missing are the manifest paths that the archive map
  lacks, differing are the paths of both maps whose archive digest is not the expected one,
  extra are the archive paths that the manifest lacks, and the expected digest of a path is
  the lower-cased digest which the manifest declares for it.
\<close>

theorem validate_payload_spec:
  "((\<exists>out. validate_payload L data infolist strict = Inr out) \<longleftrightarrow>
      (\<exists>version files signature archive manifest.
          load_manifest L data = Inr (version, files, signature)
        \<and> verify_signature L version files signature = Inr ()
        \<and> hash_zip_members L infolist = Inr archive
        \<and> normalize_manifest_files L files = Inr manifest
        \<and> missing_paths archive manifest = []
        \<and> mismatched_paths L archive manifest = []
        \<and> (extra_files archive manifest = [] \<or> \<not> strict)))
   \<and> (\<forall>version files signature archive manifest.
          load_manifest L data = Inr (version, files, signature)
        \<and> verify_signature L version files signature = Inr ()
        \<and> hash_zip_members L infolist = Inr archive
        \<and> normalize_manifest_files L files = Inr manifest
        \<longrightarrow> validate_payload L data infolist strict
              = (if missing_paths archive manifest \<noteq> []
                   then Inl (ValueError (MissingFiles (missing_paths archive manifest)))
                 else if mismatched_paths L archive manifest \<noteq> []
                   then Inl (ValueError (HashMismatch (mismatched_paths L archive manifest)))
                 else if strict \<and> extra_files archive manifest \<noteq> []
                   then Inl (ValueError (ExtraFiles (extra_files archive manifest)))
                 else if extra_files archive manifest \<noteq> []
                   then Inr [Warning (extra_files archive manifest), Valid version]
                 else Inr [Valid version])
          \<and> set (missing_paths archive manifest) = fst ` set manifest - fst ` set archive
          \<and> set (mismatched_paths L archive manifest)
              = {p. \<exists>expected h. map_of manifest p = Some expected \<and> map_of archive p = Some h
                                 \<and> str_lower L h \<noteq> expected}
          \<and> set (extra_files archive manifest) = fst ` set archive - fst ` set manifest
          \<and> (\<forall>p. map_of manifest p = last_digest L files p))"
proof -
  have 2: "validate_payload L data infolist strict
              = (if missing_paths archive manifest \<noteq> []
                   then Inl (ValueError (MissingFiles (missing_paths archive manifest)))
                 else if mismatched_paths L archive manifest \<noteq> []
                   then Inl (ValueError (HashMismatch (mismatched_paths L archive manifest)))
                 else if strict \<and> extra_files archive manifest \<noteq> []
                   then Inl (ValueError (ExtraFiles (extra_files archive manifest)))
                 else if extra_files archive manifest \<noteq> []
                   then Inr [Warning (extra_files archive manifest), Valid version]
                 else Inr [Valid version])
          \<and> set (missing_paths archive manifest) = fst ` set manifest - fst ` set archive
          \<and> set (mismatched_paths L archive manifest)
              = {p. \<exists>expected h. map_of manifest p = Some expected \<and> map_of archive p = Some h
                                 \<and> str_lower L h \<noteq> expected}
          \<and> set (extra_files archive manifest) = fst ` set archive - fst ` set manifest
          \<and> (\<forall>p. map_of manifest p = last_digest L files p)"
    if a: "load_manifest L data = Inr (version, files, signature)
        \<and> verify_signature L version files signature = Inr ()
        \<and> hash_zip_members L infolist = Inr archive
        \<and> normalize_manifest_files L files = Inr manifest"
    for version files signature archive manifest
  proof -
    from a have r: "validate_payload L data infolist strict
              = (if missing_paths archive manifest \<noteq> []
                   then Inl (ValueError (MissingFiles (missing_paths archive manifest)))
                 else if mismatched_paths L archive manifest \<noteq> []
                   then Inl (ValueError (HashMismatch (mismatched_paths L archive manifest)))
                 else if strict \<and> extra_files archive manifest \<noteq> []
                   then Inl (ValueError (ExtraFiles (extra_files archive manifest)))
                 else if extra_files archive manifest \<noteq> []
                   then Inr [Warning (extra_files archive manifest), Valid version]
                 else Inr [Valid version])"
      using validate_payload_reconciled[of L data version files signature infolist archive manifest strict]
      unfolding reconciled_def by blast
    from a have nm: "normalize_manifest_files L files = Inr manifest" by simp
    from normalize_manifest_files_Inr[OF nm] have d: "distinct (map fst manifest)"
      and l: "\<forall>p. map_of manifest p = last_digest L files p" by auto
    from r set_missing_paths[of archive manifest] set_mismatched_paths[OF d, of L archive]
      set_extra_files[of archive manifest] l
    show ?thesis by blast
  qed
  from validate_payload_Inr_iff[of L data infolist strict] 2 show ?thesis by blast
qed

theorem validate_payload_spec_witness:
  "validate_payload sample (JDict sample_doc) sample_zip True = Inr [Valid (ascii ''1.0'')]
   \<and> validate_payload sample (JDict sample_doc) (sample_zip @ [extra_entry]) False
       = Inr [Warning [ascii ''notes.txt''], Valid (ascii ''1.0'')]
   \<and> validate_payload sample (JDict sample_doc) (sample_zip @ [extra_entry]) True
       = Inl (ValueError (ExtraFiles [ascii ''notes.txt'']))
   \<and> validate_payload sample (JDict sample_doc) [] True
       = Inl (ValueError (MissingFiles [ascii ''a/b.txt'']))"
proof -
  let ?files = "[(ascii ''a/b.txt'', ascii ''03d0'')]"
  let ?both = "[(ascii ''a/b.txt'', ascii ''03d0''), (ascii ''notes.txt'', ascii ''0000'')]"
  have lo: "str_lower sample (ascii ''03d0'') = ascii ''03d0''"
    by (simp add: sample_def ascii_def)
  have r1: "reconciled sample (ascii ''1.0'') ?files ?files True = Inr [Valid (ascii ''1.0'')]"
    by (simp add: reconciled_def missing_paths_def mismatched_paths_def differs_def
        extra_files_def dict_has_def lo)
  have x: "extra_files ?both ?files = [ascii ''notes.txt'']"
    by (simp add: extra_files_def dict_has_def) (simp add: ascii_def)
  have r2: "reconciled sample (ascii ''1.0'') ?both ?files False
              = Inr [Warning [ascii ''notes.txt''], Valid (ascii ''1.0'')]"
    by (simp add: reconciled_def missing_paths_def mismatched_paths_def differs_def
        dict_has_def lo x)
  have r3: "reconciled sample (ascii ''1.0'') ?both ?files True
              = Inl (ValueError (ExtraFiles [ascii ''notes.txt'']))"
    by (simp add: reconciled_def missing_paths_def mismatched_paths_def differs_def
        dict_has_def lo x)
  have r4: "reconciled sample (ascii ''1.0'') [] ?files True
              = Inl (ValueError (MissingFiles [ascii ''a/b.txt'']))"
    by (simp add: reconciled_def missing_paths_def dict_has_def)
  note t = validate_payload_spec [THEN conjunct2, rule_format, folded reconciled_def]
  from t [where L = sample and data = "JDict sample_doc" and version = "ascii ''1.0''" and files = ?files
        and signature = "[123, 34]" and infolist = "sample_zip" and archive = ?files and manifest = ?files
        and strict = True]
    load_sample_doc verify_sample hash_sample_zip normalize_sample_files r1
  have 1: "validate_payload sample (JDict sample_doc) sample_zip True = Inr [Valid (ascii ''1.0'')]"
    by (simp del: load_manifest.simps)
  from t [where L = sample and data = "JDict sample_doc" and version = "ascii ''1.0''" and files = ?files
        and signature = "[123, 34]" and infolist = "sample_zip @ [extra_entry]" and archive = ?both and manifest = ?files
        and strict = False]
    load_sample_doc verify_sample hash_sample_zip_extra normalize_sample_files r2
  have 2: "validate_payload sample (JDict sample_doc) (sample_zip @ [extra_entry]) False
       = Inr [Warning [ascii ''notes.txt''], Valid (ascii ''1.0'')]"
    by (simp del: load_manifest.simps)
  from t [where L = sample and data = "JDict sample_doc" and version = "ascii ''1.0''" and files = ?files
        and signature = "[123, 34]" and infolist = "sample_zip @ [extra_entry]" and archive = ?both and manifest = ?files
        and strict = True]
    load_sample_doc verify_sample hash_sample_zip_extra normalize_sample_files r3
  have 3: "validate_payload sample (JDict sample_doc) (sample_zip @ [extra_entry]) True
       = Inl (ValueError (ExtraFiles [ascii ''notes.txt'']))"
    by (simp del: load_manifest.simps)
  from t [where L = sample and data = "JDict sample_doc" and version = "ascii ''1.0''" and files = ?files
        and signature = "[123, 34]" and infolist = "[]" and archive = "[]" and manifest = ?files
        and strict = True]
    load_sample_doc verify_sample hash_empty_zip normalize_sample_files r4
  have 4: "validate_payload sample (JDict sample_doc) [] True
       = Inl (ValueError (MissingFiles [ascii ''a/b.txt'']))"
    by (simp del: load_manifest.simps)
  from 1 2 3 4 show ?thesis by blast
qed

lemma normalize_a_b:
  "normalize_relative_path (ascii ''a/b'') = Inr (ascii ''a/b'')"
  "normalize_relative_path (ascii ''a//b'') = Inr (ascii ''a/b'')"
  by (simp_all add: normalize_relative_path_def ascii_def replace_char_def)

lemma validate_twice_listed:
  assumes "verify_signature L version (twice_listed bogus (hexdigest L bs)) signature = Inr ()"
  shows "validate_loaded L (version, twice_listed bogus (hexdigest L bs), signature)
           [\<lparr>filename = ascii ''a/b'', is_dir = False, content = bs\<rparr>] strict
         = Inr [Valid version]"
proof -
  have h: "hash_zip_members L [\<lparr>filename = ascii ''a/b'', is_dir = False, content = bs\<rparr>]
             = Inr [(ascii ''a/b'', hexdigest L bs)]"
    by (simp add: hash_zip_members_def normalize_a_b dict_has_def dict_set_def member_digest_eq)
  have n: "normalize_manifest_files L (twice_listed bogus (hexdigest L bs))
             = Inr [(ascii ''a/b'', str_lower L (hexdigest L bs))]"
    by (simp add: normalize_manifest_files_def twice_listed_def normalize_a_b dict_set_def)
  have r: "reconciled L version [(ascii ''a/b'', hexdigest L bs)]
             [(ascii ''a/b'', str_lower L (hexdigest L bs))] strict = Inr [Valid version]"
    by (simp add: reconciled_def missing_paths_def mismatched_paths_def differs_def
        extra_files_def dict_has_def)
  from validate_loaded_eq[OF assms h n, of strict] r show ?thesis by simp
qed

lemma validate_payload_duplicate:
  assumes "validate_payload L data infolist strict = Inl (ValueError (DuplicateZip p))"
  shows "hash_zip_members L infolist = Inl (ValueError (DuplicateZip p))"
proof (cases "load_manifest L data")
  case (Inl e)
  with assms have "e = ValueError (DuplicateZip p)" by (simp add: validate_payload_def)
  with load_manifest_errors[OF Inl] show ?thesis by (simp add: manifest_errors_def)
next
  case (Inr m)
  obtain version files signature where m: "m = (version, files, signature)" by (cases m)
  from assms Inr m
  have "validate_loaded L (version, files, signature) infolist strict
          = Inl (ValueError (DuplicateZip p))"
    by (simp add: validate_payload_def)
  then show ?thesis by (rule validate_loaded_duplicate)
qed

lemma load_sample_doc_twice:
  "load_manifest sample (JDict sample_doc_twice)
     = Inr (ascii ''1.0'', twice_listed (ascii ''ffff'') (ascii ''03d0''), [123, 34])"
  by (simp add: sample_doc_twice_def load_fields_def ascii_def str_strip_def py_isspace_def
      sample_def dict_set_def twice_listed_def)

lemma verify_sample_twice:
  "verify_signature sample (ascii ''1.0'') (twice_listed (ascii ''ffff'') (ascii ''03d0'')) [123, 34]
     = Inr ()"
proof -
  let ?fs = "twice_listed (ascii ''ffff'') (ascii ''03d0'')"
  have e: "manifest_encodable (ascii ''1.0'') ?fs"
    by (simp add: manifest_encodable_def encodable_def surrogate_def ascii_def twice_listed_def)
  have "\<exists>rest. concat (map utf8_char (manifest_text (ascii ''1.0'') (sort_key fst ?fs)))
         = 123 # 34 # rest"
    by (simp add: manifest_text_def ascii_def encode_basestring_def escape_char_def
        utf8_char_def utf8_units_def)
  then obtain rest where "signature_payload (ascii ''1.0'') ?fs = Inr (123 # 34 # rest)"
    using e by (auto simp: signature_payload_def canonical_json_manifest_eq)
  then show ?thesis
    by (simp add: verify_signature_def) (simp add: sample_def)
qed

text \<open>
  C9: two keys of the manifest's \<^verbatim>\<open>files\<close> map that normalise to the same path raise
  nothing. Normalising the manifest paths can only raise the path-security error; when it
  succeeds, each normalised path carries the lower-cased digest of the last entry that
  normalises to it. A duplicate-entry error of \<open>validate_payload\<close> always comes from the
  archive. So the manifest that lists \<^verbatim>\<open>a/b\<close> with any digest at all and then \<^verbatim>\<open>a//b\<close> with
  the digest of the archived file is accepted, for every signature that verifies.
\<close>

theorem manifest_duplicates_unchecked:
  "(\<forall>e. normalize_manifest_files L files = Inl e \<longrightarrow> e = ValueError DotDot)
   \<and> (\<forall>manifest. normalize_manifest_files L files = Inr manifest \<longrightarrow>
         distinct (map fst manifest) \<and> (\<forall>p. map_of manifest p = last_digest L files p))
   \<and> (\<forall>p. validate_payload L data infolist strict = Inl (ValueError (DuplicateZip p)) \<longrightarrow>
         hash_zip_members L infolist = Inl (ValueError (DuplicateZip p)))
   \<and> (verify_signature L version (twice_listed bogus (hexdigest L bs)) signature = Inr () \<longrightarrow>
         validate_loaded L (version, twice_listed bogus (hexdigest L bs), signature)
           [\<lparr>filename = ascii ''a/b'', is_dir = False, content = bs\<rparr>] strict
         = Inr [Valid version])"
proof -
  have 1: "\<forall>e. normalize_manifest_files L files = Inl e \<longrightarrow> e = ValueError DotDot"
    unfolding normalize_manifest_files_def using normalize_manifest_loop_Inl by blast
  have 2: "\<forall>manifest. normalize_manifest_files L files = Inr manifest \<longrightarrow>
         distinct (map fst manifest) \<and> (\<forall>p. map_of manifest p = last_digest L files p)"
    using normalize_manifest_files_Inr by blast
  have 3: "\<forall>p. validate_payload L data infolist strict = Inl (ValueError (DuplicateZip p)) \<longrightarrow>
         hash_zip_members L infolist = Inl (ValueError (DuplicateZip p))"
    using validate_payload_duplicate by blast
  have 4: "verify_signature L version (twice_listed bogus (hexdigest L bs)) signature = Inr () \<longrightarrow>
         validate_loaded L (version, twice_listed bogus (hexdigest L bs), signature)
           [\<lparr>filename = ascii ''a/b'', is_dir = False, content = bs\<rparr>] strict
         = Inr [Valid version]"
    using validate_twice_listed by blast
  from 1 2 3 4 show ?thesis by blast
qed

theorem manifest_duplicates_unchecked_witness:
  "normalize_manifest_files sample (twice_listed (ascii ''ffff'') (ascii ''03d0''))
      = Inr [(ascii ''a/b'', ascii ''03d0'')]
   \<and> last_digest sample (twice_listed (ascii ''ffff'') (ascii ''03d0'')) (ascii ''a/b'')
      = Some (ascii ''03d0'')
   \<and> validate_payload sample (JDict sample_doc_twice)
        [\<lparr>filename = ascii ''a/b'', is_dir = False, content = [0x68, 0x69, 0xFF]\<rparr>] True
      = Inr [Valid (ascii ''1.0'')]"
proof -
  let ?fs = "twice_listed (ascii ''ffff'') (ascii ''03d0'')"
  have n: "normalize_manifest_files sample ?fs = Inr [(ascii ''a/b'', ascii ''03d0'')]"
    by (simp add: normalize_manifest_files_def twice_listed_def normalize_a_b dict_set_def)
       (simp add: sample_def ascii_def)
  note t = manifest_duplicates_unchecked
    [where L = sample and files = ?fs and version = "ascii ''1.0''" and bogus = "ascii ''ffff''"
       and bs = "[0x68, 0x69, 0xFF]" and signature = "[123, 34]" and strict = True]
  from t [THEN conjunct2, THEN conjunct1] n
  have "map_of [(ascii ''a/b'', ascii ''03d0'')] (ascii ''a/b'') = last_digest sample ?fs (ascii ''a/b'')"
    by blast
  then have l: "last_digest sample ?fs (ascii ''a/b'') = Some (ascii ''03d0'')" by simp
  from t [THEN conjunct2, THEN conjunct2, THEN conjunct2] verify_sample_twice
  have "validate_loaded sample (ascii ''1.0'', ?fs, [123, 34])
          [\<lparr>filename = ascii ''a/b'', is_dir = False, content = [0x68, 0x69, 0xFF]\<rparr>] True
        = Inr [Valid (ascii ''1.0'')]"
    by (simp only: hexdigest_sample)
  with load_sample_doc_twice
  have v: "validate_payload sample (JDict sample_doc_twice)
        [\<lparr>filename = ascii ''a/b'', is_dir = False, content = [0x68, 0x69, 0xFF]\<rparr>] True
      = Inr [Valid (ascii ''1.0'')]"
    by (simp add: validate_payload_def del: load_manifest.simps)
  from n l v show ?thesis by blast
qed

section \<open>Properties of the builder's file enumeration\<close>

lemma create_manifest_sha256_file_eq: "create_manifest_sha256_file L bs = hexdigest L bs"
  by (simp add: create_manifest_sha256_file_def read_loop_eq hashlib_sha256_def)

lemma collect_loop_keys:
  "fst ` set (collect_loop L tree files)
     = fst ` set files \<union> {as_posix parts | parts n. (parts, n) \<in> set tree \<and> is_file n}"
proof (induction tree arbitrary: files)
  case Nil then show ?case by simp
next
  case (Cons e tree)
  obtain parts n where e: "e = (parts, n)" by (cases e)
  have k: "fst ` set (dict_set files k v) = insert k (fst ` set files)" for k v
    using dom_update[of k v files] by (simp add: dict_set_def dom_map_of_conv_image_fst)
  show ?case
    unfolding e using Cons.IH by (auto simp: k)
qed

lemma collect_loop_distinct:
  "distinct (map fst files @ map as_posix (map fst (filter (\<lambda>e. is_file (snd e)) tree))) \<Longrightarrow>
   collect_loop L tree files = files @ map (hashed_entry L) (filter (\<lambda>e. is_file (snd e)) tree)"
proof (induction tree arbitrary: files)
  case Nil then show ?case by simp
next
  case (Cons e tree)
  obtain parts n where e: "e = (parts, n)" by (cases e)
  show ?case
  proof (cases "is_file n")
    case False
    with Cons e show ?thesis by simp
  next
    case True
    let ?files = "dict_set files (as_posix parts) (create_manifest_sha256_file L (read_bytes n))"
    from Cons.prems True e have nk: "as_posix parts \<notin> fst ` set files" by auto
    then have f: "?files = files @ [hashed_entry L e]"
      by (simp add: dict_set_new create_manifest_sha256_file_eq hashed_entry_def e)
    from Cons.prems True e
    have "distinct (map fst ?files @ map as_posix (map fst (filter (\<lambda>e. is_file (snd e)) tree)))"
      by (simp add: f hashed_entry_def)
    from Cons.IH[OF this] True e show ?thesis by (simp add: f)
  qed
qed

lemma is_file_simps:
  "is_file (RegularFile bs)" "\<not> is_file Directory" "\<not> is_file Special"
  "\<not> is_file (SymlinkTo None)" "is_file (SymlinkTo (Some n)) = is_file n"
  by (simp_all add: is_file_def)

lemma read_bytes_simps:
  "read_bytes (RegularFile bs) = bs" "read_bytes (SymlinkTo (Some n)) = read_bytes n"
  by (simp_all add: read_bytes_def)

text \<open>
  C7 (amended): \<open>collect_hashes\<close> inserts an entry exactly for the paths on which
  \<^verbatim>\<open>is_file()\<close> holds: the regular files and the symbolic links that lead to a regular
  file. A directory, a dangling link, a link to a directory and a special file get none.
  When the paths are pairwise different, the result lists, in the order of the walk, one
  entry for each such path, keyed by its components joined with slashes and holding the
  hexadecimal SHA-256 digest of the bytes read there (for a link, the bytes of its target).
\<close>

theorem collect_hashes_spec:
  "fst ` set (collect_hashes L tree)
      = {as_posix parts | parts n. (parts, n) \<in> set tree \<and> is_file n}
   \<and> (distinct (map (\<lambda>e. as_posix (fst e)) tree) \<longrightarrow>
        collect_hashes L tree = map (hashed_entry L) (filter (\<lambda>e. is_file (snd e)) tree))
   \<and> is_file (RegularFile bs) \<and> read_bytes (RegularFile bs) = bs
   \<and> \<not> is_file Directory \<and> \<not> is_file Special \<and> \<not> is_file (SymlinkTo None)
   \<and> is_file (SymlinkTo (Some n)) = is_file n
   \<and> read_bytes (SymlinkTo (Some n)) = read_bytes n"
proof -
  have 1: "fst ` set (collect_hashes L tree)
      = {as_posix parts | parts n. (parts, n) \<in> set tree \<and> is_file n}"
    using collect_loop_keys[of L tree "[]"] by (simp add: collect_hashes_def)
  have 2: "collect_hashes L tree = map (hashed_entry L) (filter (\<lambda>e. is_file (snd e)) tree)"
    if d: "distinct (map (\<lambda>e. as_posix (fst e)) tree)"
  proof -
    from d have "distinct (map (\<lambda>e. as_posix (fst e)) (filter (\<lambda>e. is_file (snd e)) tree))"
      by (rule distinct_map_filter)
    then have "distinct (map fst ([] :: ustr pydict)
                 @ map as_posix (map fst (filter (\<lambda>e. is_file (snd e)) tree)))"
      by (simp add: comp_def)
    from collect_loop_distinct[OF this, of L] show ?thesis by (simp add: collect_hashes_def)
  qed
  from 1 2 show ?thesis by (simp add: is_file_simps read_bytes_simps)
qed

theorem collect_hashes_spec_witness:
  "distinct (map (\<lambda>e. as_posix (fst e)) sample_tree)
   \<and> collect_hashes sample sample_tree
       = [(ascii ''bin/app.exe'', ascii ''03d0''), (ascii ''latest'', ascii ''03d0'')]"
proof -
  have p: "map (\<lambda>e. as_posix (fst e)) sample_tree
         = [ascii ''bin'', ascii ''bin/app.exe'', ascii ''latest'', ascii ''lost'', ascii ''current'']"
    by (simp add: sample_tree_def as_posix_def ascii_def)
  have d: "distinct (map (\<lambda>e. as_posix (fst e)) sample_tree)"
    unfolding p by (simp add: ascii_def)
  have f: "filter (\<lambda>e. is_file (snd e)) sample_tree
         = [([ascii ''bin'', ascii ''app.exe''], RegularFile [0x68, 0x69, 0xFF]),
            ([ascii ''latest''], SymlinkTo (Some (RegularFile [0x68, 0x69, 0xFF])))]"
    by (simp add: sample_tree_def is_file_def)
  have h: "map (hashed_entry sample)
             [([ascii ''bin'', ascii ''app.exe''], RegularFile [0x68, 0x69, 0xFF]),
              ([ascii ''latest''], SymlinkTo (Some (RegularFile [0x68, 0x69, 0xFF])))]
         = [(ascii ''bin/app.exe'', ascii ''03d0''), (ascii ''latest'', ascii ''03d0'')]"
    by (simp add: hashed_entry_def read_bytes_def hexdigest_sample as_posix_def)
       (simp add: ascii_def)
  from collect_hashes_spec [of sample sample_tree, THEN conjunct2, THEN conjunct1] d
  have "collect_hashes sample sample_tree
          = map (hashed_entry sample) (filter (\<lambda>e. is_file (snd e)) sample_tree)"
    by (rule mp)
  with d show ?thesis by (simp only: f h simp_thms)
qed

text \<open>
  The specification has no entry for any symbolic link. A link to a regular file gets one,
  with the digest of the file it leads to.
\<close>

theorem collect_hashes_symlink_counterexample:
  "collect_hashes sample
     [([ascii ''real.txt''], RegularFile [0x68, 0x69, 0xFF]),
      ([ascii ''link''], SymlinkTo (Some (RegularFile [0x68, 0x69, 0xFF])))]
   = [(ascii ''real.txt'', ascii ''03d0''), (ascii ''link'', ascii ''03d0'')]"
  by (simp add: collect_hashes_def is_file_def read_bytes_def as_posix_def dict_set_def
      create_manifest_sha256_file_eq hexdigest_sample)
     (simp add: ascii_def)

end
